theory Spec2Isabelle
  imports Main "HOL-Library.Word" "HOL-Library.Char_ord" "HOL-Library.List_Lexorder"
begin

unbundle bit_operations_syntax

section \<open>The threaded chat server (threaded.cpp)\<close>

text \<open>
  A shallow embedding of \<^verbatim>\<open>src/threaded.cpp\<close>. Every \<^verbatim>\<open>ClientSession\<close> object
  lives in a heap indexed by the identity of its \<^verbatim>\<open>shared_ptr\<close>; the members of the
  \<^verbatim>\<open>ChatServer\<close> are the other fields of the record \<open>world\<close>. Each function of the
  source is a function on these records. Code that holds a mutex, and each operation on
  an atomic, is one atomic step; the threads of one session are interleaved explicitly
  where a property depends on the interleaving.
\<close>

subsection \<open>Errors and thread outcomes\<close>

text \<open>
  A \<^verbatim>\<open>std::exception\<close> carries its \<^verbatim>\<open>what()\<close> text; a failed \<^verbatim>\<open>assert\<close> aborts the
  process and no handler sees it. \<^verbatim>\<open>pthread_kill\<close> on the native handle of a
  \<^verbatim>\<open>std::thread\<close> that holds no thread (never started, or joined) gets a null handle:
  the call is outside what the library defines, the process does not survive it, and no
  handler sees it either.
\<close>

datatype error = Exception string | AssertionFailed | BadThreadHandle

text \<open>
  How the body of a thread's \<^verbatim>\<open>try\<close> block stops: suspended for ever in a wait
  (condition variable or accept), left normally, or left by an error (an exception, or
  the end of the whole process in it).
\<close>

datatype exit = Waiting | Returned | Raised error

text \<open>What has become of the thread itself after its handler has run.\<close>

datatype thread = Suspended | Finished | Aborted

subsection \<open>ClientSession\<close>

type_synonym sid = nat

text \<open>The anonymous enum of \<^verbatim>\<open>ClientSession\<close>; \<^verbatim>\<open>_state\<close> is a \<^verbatim>\<open>std::atomic<int>\<close>.\<close>

definition ALL_RUNNING :: "32 word" where
  "ALL_RUNNING = 0"

definition READER_TERMINATED :: "32 word" where
  "READER_TERMINATED = 1"

definition WRITER_TERMINATED :: "32 word" where
  "WRITER_TERMINATED = 2"

definition READER_TERMINATION_REQUESTED :: "32 word" where
  "READER_TERMINATION_REQUESTED = 4"

text \<open>
  The members \<^verbatim>\<open>_name\<close>, \<^verbatim>\<open>_nameValid\<close>, \<^verbatim>\<open>_messages\<close> and \<^verbatim>\<open>_state\<close>, followed by
  fields that record what the session does to the things it owns:
  \<^item> \<open>written\<close>: the buffers handed to \<^verbatim>\<open>boost::asio::write\<close> on \<^verbatim>\<open>_socket\<close>, in order;
  \<^item> \<open>writeError\<close>: when \<open>Some what\<close>, the connection is down and every write on the
    socket throws an exception with that text;
  \<^item> \<open>writerNotifies\<close>: the number of \<^verbatim>\<open>_writerCondition.notify_one()\<close> calls;
  \<^item> \<open>readerSignals\<close>: the number of \<^verbatim>\<open>SIGUSR1\<close> signals sent to \<^verbatim>\<open>_readerThread\<close>;
  \<^item> \<open>started\<close>: whether \<^verbatim>\<open>start()\<close> has created the two threads;
  \<^item> \<open>joined\<close>: whether \<^verbatim>\<open>waitToFinish\<close> has joined them; the thread objects hold a
    thread, and \<^verbatim>\<open>native_handle()\<close> is a valid handle, from \<^verbatim>\<open>start()\<close> to the join;
  \<^item> \<open>joinError\<close>: when \<open>Some what\<close>, \<^verbatim>\<open>std::thread::join\<close> on this session's threads
    fails in the operating system and throws an exception with that text.
\<close>

record ClientSession =
  name :: string
  nameValid :: bool
  messages :: "string list"
  state :: "32 word"
  written :: "string list"
  writeError :: "string option"
  writerNotifies :: nat
  readerSignals :: nat
  started :: bool
  joined :: bool
  joinError :: "string option"

text \<open>The constructor: \<^verbatim>\<open>_nameValid(false), _state(ALL_RUNNING)\<close>.\<close>

definition newClientSession :: ClientSession where
  "newClientSession =
     \<lparr>name = [], nameValid = False, messages = [], state = ALL_RUNNING,
      written = [], writeError = None, writerNotifies = 0, readerSignals = 0,
      started = False, joined = False, joinError = None\<rparr>"

text \<open>\<^verbatim>\<open>std::thread::joinable()\<close> of \<^verbatim>\<open>_readerThread\<close> and \<^verbatim>\<open>_writerThread\<close>.\<close>

definition joinable :: "ClientSession \<Rightarrow> bool" where
  "joinable s = (started s \<and> \<not> joined s)"

definition getName :: "ClientSession \<Rightarrow> string option" where
  "getName s = (if nameValid s then Some (name s) else None)"

definition setName :: "string \<Rightarrow> ClientSession \<Rightarrow> error + ClientSession" where
  "setName n s =
     (if nameValid s then Inl AssertionFailed
      else Inr (s\<lparr>name := n, nameValid := True\<rparr>))"

definition start :: "ClientSession \<Rightarrow> ClientSession" where
  "start s = s\<lparr>started := True\<rparr>"

definition sendMessage :: "string \<Rightarrow> ClientSession \<Rightarrow> ClientSession" where
  "sendMessage msg s =
     s\<lparr>messages := messages s @ [msg], writerNotifies := Suc (writerNotifies s)\<rparr>"

text \<open>
  \<^verbatim>\<open>waitToFinish\<close>: the two assertions, then the two joins. \<^verbatim>\<open>join\<close> on a thread object
  that is not joinable throws \<^verbatim>\<open>std::system_error\<close> (invalid argument).
\<close>

definition waitToFinish :: "ClientSession \<Rightarrow> error + ClientSession" where
  "waitToFinish s =
     (if state s AND READER_TERMINATED = 0 then Inl AssertionFailed
      else if state s AND WRITER_TERMINATED = 0 then Inl AssertionFailed
      else case joinError s of
             Some what \<Rightarrow> Inl (Exception what)
           | None \<Rightarrow>
               if joinable s then Inr (s\<lparr>joined := True\<rparr>)
               else Inl (Exception ''Invalid argument''))"

text \<open>\<^verbatim>\<open>boost::asio::write(_socket, ...)\<close>.\<close>

definition asio_write :: "string \<Rightarrow> ClientSession \<Rightarrow> error + ClientSession" where
  "asio_write buf s =
     (case writeError s of
        Some what \<Rightarrow> Inl (Exception what)
      | None \<Rightarrow> Inr (s\<lparr>written := written s @ [buf]\<rparr>))"

text \<open>\<^verbatim>\<open>_state.fetch_or(bits)\<close>: one atomic step that returns the old value.\<close>

definition fetch_or :: "32 word \<Rightarrow> ClientSession \<Rightarrow> 32 word \<times> ClientSession" where
  "fetch_or bits s = (state s, s\<lparr>state := state s OR bits\<rparr>)"

text \<open>
  \<^verbatim>\<open>interruptReader\<close>: the \<^verbatim>\<open>fetch_or\<close>, then
  \<^verbatim>\<open>pthread_kill(_readerThread.native_handle(), SIGUSR1)\<close>. The signal reaches the
  reader thread only while \<^verbatim>\<open>_readerThread\<close> holds a thread; a thread that has returned
  but is not joined yet still has a valid handle.
\<close>

definition interruptReader :: "ClientSession \<Rightarrow> error + ClientSession" where
  "interruptReader s =
     (let (oldValue, s') = fetch_or READER_TERMINATION_REQUESTED s
      in if joinable s' then Inr (s'\<lparr>readerSignals := Suc (readerSignals s')\<rparr>)
         else Inl BadThreadHandle)"

definition terminate :: "ClientSession \<Rightarrow> error + ClientSession" where
  "terminate s = interruptReader s"

text \<open>
  \<^verbatim>\<open>getMessage\<close>: the wait on \<^verbatim>\<open>_writerCondition\<close> returns once its predicate
  \<^verbatim>\<open>_state != ALL_RUNNING || !_messages.empty()\<close> holds; while it does not hold the writer
  stays suspended (\<open>None\<close>). \<open>Some None\<close> is the empty \<^verbatim>\<open>shared_ptr\<close>.
\<close>

definition getMessage :: "ClientSession \<Rightarrow> (string option \<times> ClientSession) option" where
  "getMessage s =
     (if \<not> (state s \<noteq> ALL_RUNNING \<or> messages s \<noteq> []) then None
      else if state s \<noteq> ALL_RUNNING then Some (None, s)
      else case messages s of
             [] \<Rightarrow> None
           | msg # rest \<Rightarrow> Some (Some msg, s\<lparr>messages := rest\<rparr>))"

text \<open>The loop of \<^verbatim>\<open>writerThread\<close>, inside its \<^verbatim>\<open>try\<close> block.\<close>

function writerLoop :: "ClientSession \<Rightarrow> exit \<times> ClientSession" where
  "writerLoop s =
     (case getMessage s of
        None \<Rightarrow> (Waiting, s)
      | Some (None, s1) \<Rightarrow> (Returned, s1)
      | Some (Some msg, s1) \<Rightarrow>
          (case asio_write msg s1 of
             Inl e \<Rightarrow> (Raised e, s1)
           | Inr s2 \<Rightarrow> writerLoop s2))"
  by pat_completeness auto
termination
  by (relation "measure (\<lambda>s. length (messages s))")
     (auto simp: getMessage_def asio_write_def split: if_splits list.splits option.splits)

declare writerLoop.simps [simp del]

text \<open>The name as both handlers print it.\<close>

definition formattedName :: "ClientSession \<Rightarrow> string" where
  "formattedName s =
     (case getName s of
        Some n \<Rightarrow> [CHR 0x27] @ n @ [CHR 0x27]
      | None \<Rightarrow> ''(null)'')"

subsection \<open>ChatServer and the heap of sessions\<close>

text \<open>
  \<open>heap\<close> and \<open>nextId\<close> are the store of \<^verbatim>\<open>ClientSession\<close> objects and its allocation
  pointer. \<open>clients\<close>, \<open>namesToClients\<close>, \<open>clientsToRemove\<close> and \<open>isTerminating\<close> are
  the members of the \<^verbatim>\<open>ChatServer\<close>; the \<^verbatim>\<open>std::map\<close> is kept as an association list in
  key order, its keys compared by content as \<^verbatim>\<open>PtrLess\<close> does. \<open>listenPort\<close> is the
  port of the endpoint that \<^verbatim>\<open>_acceptor\<close> is bound to. \<open>reaperNotifies\<close> counts
  \<^verbatim>\<open>_reaperCondition.notify_one()\<close>, \<open>acceptorSignals\<close> the signals sent to the
  accepting thread, and \<open>cout\<close> holds the lines printed on \<^verbatim>\<open>std::cout\<close>.
\<close>

record world =
  heap :: "sid \<Rightarrow> ClientSession"
  nextId :: sid
  clients :: "sid set"
  namesToClients :: "(string \<times> sid) list"
  clientsToRemove :: "sid list"
  isTerminating :: bool
  listenPort :: "16 word"
  reaperNotifies :: nat
  acceptorSignals :: nat
  cout :: "string list"

text \<open>
  The members as the \<^verbatim>\<open>ChatServer\<close> constructor leaves them: empty containers,
  \<^verbatim>\<open>_isTerminating(false)\<close>; no session is allocated yet.
\<close>

definition newChatServer :: world where
  "newChatServer =
     \<lparr>heap = (\<lambda>c. newClientSession), nextId = 0, clients = {}, namesToClients = [],
      clientsToRemove = [], isTerminating = False, listenPort = 0, reaperNotifies = 0,
      acceptorSignals = 0, cout = []\<rparr>"


text \<open>A call through a pointer to a session, of a function that can fail or not.\<close>

definition at_session :: "sid \<Rightarrow> (ClientSession \<Rightarrow> ClientSession) \<Rightarrow> world \<Rightarrow> world" where
  "at_session c f w = w\<lparr>heap := (heap w)(c := f (heap w c))\<rparr>"

definition try_session ::
  "sid \<Rightarrow> (ClientSession \<Rightarrow> error + ClientSession) \<Rightarrow> world \<Rightarrow> error + world" where
  "try_session c f w =
     (case f (heap w c) of
        Inl e \<Rightarrow> Inl e
      | Inr s' \<Rightarrow> Inr (w\<lparr>heap := (heap w)(c := s')\<rparr>))"

definition removeClient :: "sid \<Rightarrow> world \<Rightarrow> world" where
  "removeClient c w =
     w\<lparr>clientsToRemove := clientsToRemove w @ [c],
       reaperNotifies := Suc (reaperNotifies w)\<rparr>"

text \<open>
  \<^verbatim>\<open>onReaderShutdown\<close> and \<^verbatim>\<open>onWriterShutdown\<close>: the atomic \<^verbatim>\<open>fetch_or\<close>, then the
  branch on the local \<^verbatim>\<open>oldValue\<close>. The two parts are separate definitions because
  another thread can run between them.
\<close>

definition onReaderShutdown_branch :: "sid \<Rightarrow> 32 word \<Rightarrow> world \<Rightarrow> world" where
  "onReaderShutdown_branch c oldValue w =
     (if oldValue AND WRITER_TERMINATED \<noteq> 0 then removeClient c w
      else at_session c (\<lambda>s. s\<lparr>writerNotifies := Suc (writerNotifies s)\<rparr>) w)"

definition onReaderShutdown :: "sid \<Rightarrow> world \<Rightarrow> world" where
  "onReaderShutdown c w =
     (let (oldValue, s') = fetch_or READER_TERMINATED (heap w c)
      in onReaderShutdown_branch c oldValue (w\<lparr>heap := (heap w)(c := s')\<rparr>))"

definition onWriterShutdown_branch :: "sid \<Rightarrow> 32 word \<Rightarrow> world \<Rightarrow> error + world" where
  "onWriterShutdown_branch c oldValue w =
     (if oldValue AND READER_TERMINATED \<noteq> 0 then Inr (removeClient c w)
      else try_session c interruptReader w)"

definition onWriterShutdown :: "sid \<Rightarrow> world \<Rightarrow> error + world" where
  "onWriterShutdown c w =
     (let (oldValue, s') = fetch_or WRITER_TERMINATED (heap w c)
      in onWriterShutdown_branch c oldValue (w\<lparr>heap := (heap w)(c := s')\<rparr>))"

text \<open>
  \<^verbatim>\<open>writerThread\<close>: the loop, the handler that prints the exception, and
  \<^verbatim>\<open>onWriterShutdown\<close>. A writer suspended in \<^verbatim>\<open>getMessage\<close> has not reached the
  handshake. \<open>thread_end\<close> is the end of a thread function whose last call may have
  brought the process down.
\<close>

definition thread_end :: "world \<Rightarrow> error + world \<Rightarrow> thread \<times> world" where
  "thread_end w r = (case r of Inl e \<Rightarrow> (Aborted, w) | Inr w' \<Rightarrow> (Finished, w'))"

definition writerThread :: "sid \<Rightarrow> world \<Rightarrow> thread \<times> world" where
  "writerThread c w =
     (case writerLoop (heap w c) of
        (Waiting, s') \<Rightarrow> (Suspended, w\<lparr>heap := (heap w)(c := s')\<rparr>)
      | (Returned, s') \<Rightarrow>
          thread_end (w\<lparr>heap := (heap w)(c := s')\<rparr>)
            (onWriterShutdown c (w\<lparr>heap := (heap w)(c := s')\<rparr>))
      | (Raised AssertionFailed, s') \<Rightarrow> (Aborted, w\<lparr>heap := (heap w)(c := s')\<rparr>)
      | (Raised BadThreadHandle, s') \<Rightarrow> (Aborted, w\<lparr>heap := (heap w)(c := s')\<rparr>)
      | (Raised (Exception what), s') \<Rightarrow>
          thread_end
            (w\<lparr>heap := (heap w)(c := s'),
               cout := cout w @ [''Client '' @ formattedName s' @
                                 '' writer thread exeption: '' @ what @ [CHR 0x0A]]\<rparr>)
            (onWriterShutdown c
               (w\<lparr>heap := (heap w)(c := s'),
                  cout := cout w @ [''Client '' @ formattedName s' @
                                    '' writer thread exeption: '' @ what @ [CHR 0x0A]]\<rparr>)))"

subsection \<open>The name map, broadcast and shutdown\<close>

text \<open>
  \<^verbatim>\<open>setClientName\<close>: \<^verbatim>\<open>find\<close> compares the contents of the names. The inserted key is
  the session's own name, which \<^verbatim>\<open>find\<close> has just reported absent, so the second
  \<^verbatim>\<open>assert\<close> cannot fail; the first is the one in \<^verbatim>\<open>setName\<close>.
\<close>

definition setClientName :: "sid \<Rightarrow> string \<Rightarrow> world \<Rightarrow> error + bool \<times> world" where
  "setClientName c n w =
     (case map_of (namesToClients w) n of
        None \<Rightarrow>
          (case setName n (heap w c) of
             Inl e \<Rightarrow> Inl e
           | Inr s' \<Rightarrow>
               Inr (True,
                    w\<lparr>heap := (heap w)(c := s'),
                      namesToClients := insort_key fst (n, c) (namesToClients w)\<rparr>))
      | Some found \<Rightarrow> Inr (False, w))"

text \<open>
  \<^verbatim>\<open>broadcast\<close>: the receivers are copied out of the name map, then every receiver
  other than the sender gets the message.
\<close>

definition broadcast :: "sid \<Rightarrow> string \<Rightarrow> world \<Rightarrow> world" where
  "broadcast sender msg w =
     (let receivers = map snd (namesToClients w)
      in fold (\<lambda>receiver w'.
                 if receiver \<noteq> sender then at_session receiver (sendMessage msg) w'
                 else w')
              receivers w)"

text \<open>
  \<^verbatim>\<open>shutdown\<close>: every session of \<^verbatim>\<open>_clients\<close> is terminated, the flag is set, the
  accepting thread is signalled. The sessions are distinct objects, so the order of the
  iteration does not show; if \<^verbatim>\<open>terminate\<close> fails for one of them, the process ends
  there.
\<close>

definition shutdown :: "world \<Rightarrow> error + world" where
  "shutdown w =
     (if \<exists>c\<in>clients w. isl (terminate (heap w c)) then Inl BadThreadHandle
      else Inr (w\<lparr>heap := (\<lambda>c. if c \<in> clients w then projr (terminate (heap w c))
                                else heap w c),
                 isTerminating := True,
                 acceptorSignals := Suc (acceptorSignals w)\<rparr>))"

subsection \<open>The reaper\<close>

text \<open>\<^verbatim>\<open>_namesToClients.erase(client->getName())\<close>; a null key matches no entry.\<close>

definition erase_name :: "string option \<Rightarrow> (string \<times> sid) list \<Rightarrow> (string \<times> sid) list" where
  "erase_name key m =
     (case key of
        None \<Rightarrow> m
      | Some n \<Rightarrow> filter (\<lambda>kv. fst kv \<noteq> n) m)"

text \<open>
  The loop of \<^verbatim>\<open>reaperThread\<close>, inside its \<^verbatim>\<open>try\<close> block. \<^verbatim>\<open>getClientToRemove\<close>
  suspends the thread while the queue is empty.
\<close>

function reaperLoop :: "world \<Rightarrow> exit \<times> world" where
  "reaperLoop w =
     (case clientsToRemove w of
        [] \<Rightarrow> (Waiting, w)
      | client # rest \<Rightarrow>
          (let w1 = w\<lparr>clientsToRemove := rest\<rparr>
           in case waitToFinish (heap w1 client) of
                Inl e \<Rightarrow> (Raised e, w1)
              | Inr s' \<Rightarrow>
                  (let w2 = w1\<lparr>heap := (heap w1)(client := s'),
                                namesToClients :=
                                  erase_name (getName s') (namesToClients w1)\<rparr>
                   in if client \<notin> clients w2 then (Raised AssertionFailed, w2)
                      else (let w3 = w2\<lparr>clients := clients w2 - {client}\<rparr>
                            in if isTerminating w3 \<and> clients w3 = {} then (Returned, w3)
                               else reaperLoop w3))))"
  by pat_completeness auto
termination
  by (relation "measure (\<lambda>w. length (clientsToRemove w))") auto

declare reaperLoop.simps [simp del]

definition reaperThread :: "world \<Rightarrow> thread \<times> world" where
  "reaperThread w =
     (case reaperLoop w of
        (Waiting, w') \<Rightarrow> (Suspended, w')
      | (Returned, w') \<Rightarrow> (Finished, w')
      | (Raised AssertionFailed, w') \<Rightarrow> (Aborted, w')
      | (Raised BadThreadHandle, w') \<Rightarrow> (Aborted, w')
      | (Raised (Exception what), w') \<Rightarrow>
          (Finished, w'\<lparr>cout := cout w' @ [''Reaper thread exception: '' @ what @ [CHR 0x0A]]\<rparr>))"

subsection \<open>The accept loop\<close>

text \<open>
  One pass of the loop of \<^verbatim>\<open>run\<close> blocks in \<^verbatim>\<open>accept\<close>. The script gives, for each
  pass, what the other threads and the network do: whether \<^verbatim>\<open>shutdown\<close> runs before the
  loop condition is read, whether it runs between that read and the locking of
  \<^verbatim>\<open>_clientsMutex\<close> (while \<^verbatim>\<open>accept\<close> blocks), and how \<^verbatim>\<open>accept\<close> ends. \<^verbatim>\<open>shutdown\<close>
  holds the same mutex, so it cannot run inside the guarded block. With the script used
  up the thread stays blocked in \<^verbatim>\<open>accept\<close>. A \<^verbatim>\<open>shutdown\<close> that brings the process
  down ends this thread too.
\<close>

datatype accept_result = Connected | AcceptError string

record accept_event =
  shutdownBefore :: bool
  shutdownDuring :: bool
  accepted :: accept_result

text \<open>\<^verbatim>\<open>std::make_shared<ClientSession>(*this, _ioService)\<close>.\<close>

definition make_shared :: "world \<Rightarrow> sid \<times> world" where
  "make_shared w =
     (nextId w, w\<lparr>heap := (heap w)(nextId w := newClientSession), nextId := Suc (nextId w)\<rparr>)"

fun run :: "accept_event list \<Rightarrow> world \<Rightarrow> exit \<times> world" where
  "run [] w =
     (if \<not> isTerminating w then (Waiting, snd (make_shared w)) else (Returned, w))"
| "run (ev # evs) w =
     (case (if shutdownBefore ev then shutdown w else Inr w) of
        Inl e \<Rightarrow> (Raised e, w)
      | Inr w0 \<Rightarrow>
          if \<not> isTerminating w0 then
            (let (client, w1) = make_shared w0
             in case (if shutdownDuring ev then shutdown w1 else Inr w1) of
                  Inl e \<Rightarrow> (Raised e, w1)
                | Inr w2 \<Rightarrow>
                    (case accepted ev of
                       AcceptError what \<Rightarrow> (Raised (Exception what), w2)
                     | Connected \<Rightarrow>
                         if \<not> isTerminating w2 then
                           (if client \<in> clients w2 then (Raised AssertionFailed, w2)
                            else run evs (at_session client start
                                            (w2\<lparr>clients := insert client (clients w2)\<rparr>)))
                         else run evs w2))
          else (Returned, w0))"

subsection \<open>The reader thread\<close>

text \<open>
  The script of a connection: each item is one \<^verbatim>\<open>read_until\<close>. \<open>interference\<close> are the
  bits that other threads set in \<^verbatim>\<open>_state\<close> while the reader is blocked in this read,
  \<open>received\<close> is how the read ends, and \<open>stamp\<close> is the local time printed when the line
  is formatted. After the last item the peer has closed the connection and the read
  throws.
\<close>

datatype read_result = Line string | ReadError string

record input =
  interference :: "32 word"
  received :: read_result
  stamp :: string

fun readLineFromClient ::
  "sid \<Rightarrow> input list \<Rightarrow> world \<Rightarrow> (error + string) \<times> input list \<times> world" where
  "readLineFromClient c [] w = (Inl (Exception ''End of file''), [], w)"
| "readLineFromClient c (i # rest) w =
     (let w' = at_session c (\<lambda>s. s\<lparr>state := state s OR interference i\<rparr>) w
      in case received i of
           ReadError what \<Rightarrow> (Inl (Exception what), rest, w')
         | Line line \<Rightarrow> (Inr line, rest, w'))"

definition local_time :: "input list \<Rightarrow> string" where
  "local_time ins = (case ins of [] \<Rightarrow> [] | i # rest \<Rightarrow> stamp i)"

definition socket_write :: "sid \<Rightarrow> string \<Rightarrow> world \<Rightarrow> error + world" where
  "socket_write c buf w =
     (case asio_write buf (heap w c) of
        Inl e \<Rightarrow> Inl e
      | Inr s' \<Rightarrow> Inr (w\<lparr>heap := (heap w)(c := s')\<rparr>))"

text \<open>The static \<^verbatim>\<open>str\<close>; \<^verbatim>\<open>sizeof(str)-1\<close> leaves out the terminating zero.\<close>

definition str :: string where
  "str = ''What's your name?'' @ [CHR 0x0A]"

definition parseLine ::
  "sid \<Rightarrow> string \<Rightarrow> string \<Rightarrow> world \<Rightarrow> error + bool \<times> world" where
  "parseLine c now line w =
     (if line = ''/quit'' then Inr (False, w)
      else if line = ''/shutdown'' then
        (case shutdown w of
           Inl e \<Rightarrow> Inl e
         | Inr w' \<Rightarrow> Inr (False, w'))
      else Inr (True,
                broadcast c (now @ '' '' @ name (heap w c) @ '': '' @ line @ [CHR 0x0A]) w))"

text \<open>The first loop of \<^verbatim>\<open>readerThread\<close>: \<^verbatim>\<open>loginSuccessfull\<close> is false on entry.\<close>

function loginLoop :: "sid \<Rightarrow> input list \<Rightarrow> world \<Rightarrow> exit \<times> input list \<times> world" where
  "loginLoop c ins w =
     (if \<not> (state (heap w c) = ALL_RUNNING) then (Returned, ins, w)
      else case socket_write c str w of
             Inl e \<Rightarrow> (Raised e, ins, w)
           | Inr w1 \<Rightarrow>
               (case readLineFromClient c ins w1 of
                  (Inl e, rest, w2) \<Rightarrow> (Raised e, rest, w2)
                | (Inr n, rest, w2) \<Rightarrow>
                    (case setClientName c n w2 of
                       Inl e \<Rightarrow> (Raised e, rest, w2)
                     | Inr (True, w3) \<Rightarrow>
                         (case socket_write c
                                 (''Welcome to the chat, '' @ n @ ''!'' @ [CHR 0x0A]) w3 of
                            Inl e \<Rightarrow> (Raised e, rest, w3)
                          | Inr w4 \<Rightarrow> (Returned, rest, w4))
                     | Inr (False, w3) \<Rightarrow>
                         (case socket_write c
                                 (''Name '' @ [CHR 0x27] @ n @ [CHR 0x27] @
                                  '' is already taken, invent another one.'' @ [CHR 0x0A])
                                 w3 of
                            Inl e \<Rightarrow> (Raised e, rest, w3)
                          | Inr w4 \<Rightarrow> loginLoop c rest w4))))"
  by pat_completeness auto
termination
proof (relation "measure (\<lambda>(c, ins, w). length ins)", goal_cases)
  case 1
  show ?case by simp
next
  case (2 c ins w)
  then show ?case
    by (cases ins) (auto simp: Let_def split: read_result.splits)
qed

declare loginLoop.simps [simp del]

text \<open>The second loop: \<^verbatim>\<open>while (parseLine(readLineFromClient()));\<close>.\<close>

function chatLoop :: "sid \<Rightarrow> input list \<Rightarrow> world \<Rightarrow> exit \<times> world" where
  "chatLoop c ins w =
     (case readLineFromClient c ins w of
        (Inl e, rest, w1) \<Rightarrow> (Raised e, w1)
      | (Inr line, rest, w1) \<Rightarrow>
          (case parseLine c (local_time ins) line w1 of
             Inl e \<Rightarrow> (Raised e, w1)
           | Inr (True, w2) \<Rightarrow> chatLoop c rest w2
           | Inr (False, w2) \<Rightarrow> (Returned, w2)))"
  by pat_completeness auto
termination
proof (relation "measure (\<lambda>(c, ins, w). length ins)", goal_cases)
  case 1
  show ?case by simp
next
  case (2 c ins w)
  then show ?case
    by (cases ins) (auto simp: Let_def split: read_result.splits)
qed

declare chatLoop.simps [simp del]

text \<open>
  \<^verbatim>\<open>readerThread\<close>: the two loops inside the \<^verbatim>\<open>try\<close> block, the handler that prints
  the exception, and \<^verbatim>\<open>onReaderShutdown\<close>.
\<close>

definition readerLoops :: "sid \<Rightarrow> input list \<Rightarrow> world \<Rightarrow> exit \<times> world" where
  "readerLoops c ins w =
     (case loginLoop c ins w of
        (Returned, rest, w1) \<Rightarrow> chatLoop c rest w1
      | (Waiting, rest, w1) \<Rightarrow> (Waiting, w1)
      | (Raised e, rest, w1) \<Rightarrow> (Raised e, w1))"

definition readerThread :: "sid \<Rightarrow> input list \<Rightarrow> world \<Rightarrow> thread \<times> world" where
  "readerThread c ins w =
     (case readerLoops c ins w of
        (Waiting, w') \<Rightarrow> (Suspended, w')
      | (Returned, w') \<Rightarrow> (Finished, onReaderShutdown c w')
      | (Raised AssertionFailed, w') \<Rightarrow> (Aborted, w')
      | (Raised BadThreadHandle, w') \<Rightarrow> (Aborted, w')
      | (Raised (Exception what), w') \<Rightarrow>
          (Finished,
           onReaderShutdown c
             (w'\<lparr>cout := cout w' @ [''Client '' @ formattedName (heap w' c) @
                                   '' reader thread exeption: '' @ what @ [CHR 0x0A]]\<rparr>)))"

subsection \<open>The two threads of one session, interleaved\<close>

text \<open>
  Where each thread of a session stands with respect to its shutdown function: not
  there yet, past the \<^verbatim>\<open>fetch_or\<close> with the old value in its local \<^verbatim>\<open>oldValue\<close>, or
  past the branch (the thread function returns). An action is one atomic step of one
  thread; \<open>Terminate\<close> and \<open>Send\<close> are calls of \<^verbatim>\<open>terminate\<close> and \<^verbatim>\<open>sendMessage\<close> by
  threads of other sessions. An action that its thread cannot take next, or that brings
  the process down, gives \<open>None\<close>.
\<close>

datatype pc = Running | Fetched "32 word" | Left "32 word"

datatype action =
  ReaderFetch | ReaderBranch | WriterFetch | WriterBranch | Terminate | Send string

type_synonym config = "pc \<times> pc \<times> world"

fun step :: "sid \<Rightarrow> action \<Rightarrow> config \<Rightarrow> config option" where
  "step c ReaderFetch (Running, wr, w) =
     (let (oldValue, s') = fetch_or READER_TERMINATED (heap w c)
      in Some (Fetched oldValue, wr, w\<lparr>heap := (heap w)(c := s')\<rparr>))"
| "step c ReaderBranch (Fetched oldValue, wr, w) =
     Some (Left oldValue, wr, onReaderShutdown_branch c oldValue w)"
| "step c WriterFetch (rd, Running, w) =
     (let (oldValue, s') = fetch_or WRITER_TERMINATED (heap w c)
      in Some (rd, Fetched oldValue, w\<lparr>heap := (heap w)(c := s')\<rparr>))"
| "step c WriterBranch (rd, Fetched oldValue, w) =
     (case onWriterShutdown_branch c oldValue w of
        Inl e \<Rightarrow> None
      | Inr w' \<Rightarrow> Some (rd, Left oldValue, w'))"
| "step c Terminate (rd, wr, w) =
     (case try_session c terminate w of
        Inl e \<Rightarrow> None
      | Inr w' \<Rightarrow> Some (rd, wr, w'))"
| "step c (Send msg) (rd, wr, w) = Some (rd, wr, at_session c (sendMessage msg) w)"
| "step c a cfg = None"

fun steps :: "sid \<Rightarrow> action list \<Rightarrow> config \<Rightarrow> config option" where
  "steps c [] cfg = Some cfg"
| "steps c (a # as) cfg =
     (case step c a cfg of
        None \<Rightarrow> None
      | Some cfg' \<Rightarrow> steps c as cfg')"

subsection \<open>main\<close>

text \<open>
  \<^verbatim>\<open>boost::lexical_cast<int>\<close> is library code. Its documented behaviour on a string:
  an optional sign, then at least one decimal digit and nothing else, the value within
  the range of \<^verbatim>\<open>int\<close>; otherwise it throws \<^verbatim>\<open>bad_lexical_cast\<close>.
\<close>

definition is_digit :: "char \<Rightarrow> bool" where
  "is_digit ch = (CHR ''0'' \<le> ch \<and> ch \<le> CHR ''9'')"

fun decimal :: "nat \<Rightarrow> string \<Rightarrow> nat" where
  "decimal acc [] = acc"
| "decimal acc (ch # rest) = decimal (10 * acc + (of_char ch - of_char CHR ''0'')) rest"

definition lexical_cast_int :: "string \<Rightarrow> error + int" where
  "lexical_cast_int src =
     (let bad = Inl (Exception
                  ''bad lexical cast: source type value could not be interpreted as target'');
          negative = (src \<noteq> [] \<and> hd src = CHR ''-'');
          digits = (if src \<noteq> [] \<and> (hd src = CHR ''-'' \<or> hd src = CHR ''+'') then tl src
                    else src);
          v = (if negative then - int (decimal 0 digits) else int (decimal 0 digits))
      in if digits = [] \<or> \<not> list_all is_digit digits then bad
         else if v < - (2 ^ 31) \<or> 2 ^ 31 \<le> v then bad
         else Inr v)"





subsection \<open>Proof vocabulary\<close>

text \<open>
  The local \<^verbatim>\<open>oldValue\<close> of a thread that is past its \<^verbatim>\<open>fetch_or\<close>, and whether a
  thread has taken the \<^verbatim>\<open>removeClient\<close> branch (\<open>other\<close> is the other thread's flag).
\<close>

definition old_of :: "pc \<Rightarrow> 32 word option" where
  "old_of p = (case p of Running \<Rightarrow> None | Fetched v \<Rightarrow> Some v | Left v \<Rightarrow> Some v)"

definition enqueued :: "pc \<Rightarrow> 32 word \<Rightarrow> bool" where
  "enqueued p other = (case p of Left v \<Rightarrow> v AND other \<noteq> 0 | _ \<Rightarrow> False)"

text \<open>
  The invariant of the handshake, for a session \<open>c\<close> and the reclamation queue \<open>q0\<close>
  at the start: a thread is before its \<^verbatim>\<open>fetch_or\<close> exactly when its flag is clear; of
  two old values exactly one shows the other thread's flag, and an old value taken while
  the other thread was still running does not show it; the queue has grown by \<open>c\<close>
  exactly if a thread has taken the \<^verbatim>\<open>removeClient\<close> branch.
\<close>

definition handshake_inv :: "sid list \<Rightarrow> sid \<Rightarrow> config \<Rightarrow> bool" where
  "handshake_inv q0 c cfg =
     (case cfg of (rd, wr, w) \<Rightarrow>
        (rd = Running) = (state (heap w c) AND READER_TERMINATED = 0) \<and>
        (wr = Running) = (state (heap w c) AND WRITER_TERMINATED = 0) \<and>
        (case (old_of rd, old_of wr) of
           (Some ro, Some wo) \<Rightarrow>
             (ro AND WRITER_TERMINATED \<noteq> 0) \<noteq> (wo AND READER_TERMINATED \<noteq> 0)
         | (Some ro, None) \<Rightarrow> ro AND WRITER_TERMINATED = 0
         | (None, Some wo) \<Rightarrow> wo AND READER_TERMINATED = 0
         | (None, None) \<Rightarrow> True) \<and>
        clientsToRemove w =
          q0 @ (if enqueued rd WRITER_TERMINATED \<or> enqueued wr READER_TERMINATED
                then [c] else []))"

subsection \<open>Example states\<close>

text \<open>
  A connection accepted with no \<^verbatim>\<open>shutdown\<close> around it; the server after \<^verbatim>\<open>run\<close> has
  accepted two such connections (sessions 0 and 1, both started and not yet named); and
  a server with two quiesced sessions waiting in the reclamation queue, the first of
  which cannot be joined.
\<close>

definition connection :: accept_event where
  "connection = \<lparr>shutdownBefore = False, shutdownDuring = False, accepted = Connected\<rparr>"

definition two_clients :: world where
  "two_clients = snd (run [connection, connection] newChatServer)"

definition two_quiesced :: world where
  "two_quiesced =
     newChatServer
       \<lparr>heap := (\<lambda>c. newClientSession\<lparr>state := 3, started := True\<rparr>)
                  (0 := newClientSession\<lparr>state := 3, started := True,
                                          joinError := Some ''Invalid argument''\<rparr>),
        nextId := 2, clients := {0, 1}, clientsToRemove := [0, 1]\<rparr>"

text \<open>
  The same server after session 0 has registered as alice, and after session 1 has then
  registered as bob; and a line that arrives with no other thread touching \<^verbatim>\<open>_state\<close>.
\<close>

definition alice_named :: world where
  "alice_named =
     (case setClientName 0 ''alice'' two_clients of
        Inr (ok, w) \<Rightarrow> w
      | Inl e \<Rightarrow> two_clients)"

definition both_named :: world where
  "both_named =
     (case setClientName 1 ''bob'' alice_named of
        Inr (ok, w) \<Rightarrow> w
      | Inl e \<Rightarrow> alice_named)"

definition says :: "string \<Rightarrow> input" where
  "says line = \<lparr>interference = 0, received = Line line, stamp = ''12:00''\<rparr>"

text \<open>
  Session 0 of that server with a message queued and its connection down; a connection
  during whose \<^verbatim>\<open>accept\<close> another thread runs \<^verbatim>\<open>shutdown\<close>; an \<^verbatim>\<open>accept\<close> that the
  signal of such a \<^verbatim>\<open>shutdown\<close> interrupts, and a read that the signal of \<^verbatim>\<open>terminate\<close>
  interrupts; and the sessions 0 and 1 stopping: each reader is interrupted in its read
  and runs to its end, then each writer does.
\<close>

definition broken_pipe :: world where
  "broken_pipe =
     at_session 0 (\<lambda>s. (sendMessage ''hi'' s)\<lparr>writeError := Some ''Broken pipe''\<rparr>) alice_named"

definition late_connection :: accept_event where
  "late_connection = \<lparr>shutdownBefore = False, shutdownDuring = True, accepted = Connected\<rparr>"




subsection \<open>Concurrent registration attempts\<close>

text \<open>
  The readers of the sessions \<open>cs\<close> all call \<^verbatim>\<open>setClientName\<close> with the same name;
  \<^verbatim>\<open>_namesToClientsMutex\<close> puts the calls in some order, here the order of the list. The
  result lists what each call returns.
\<close>

fun attempts :: "string \<Rightarrow> sid list \<Rightarrow> world \<Rightarrow> error + bool list \<times> world" where
  "attempts n [] w = Inr ([], w)"
| "attempts n (c # cs) w =
     (case setClientName c n w of
        Inl e \<Rightarrow> Inl e
      | Inr (ok, w1) \<Rightarrow>
          (case attempts n cs w1 of
             Inl e \<Rightarrow> Inl e
           | Inr (oks, w2) \<Rightarrow> Inr (ok # oks, w2)))"

section \<open>Properties\<close>

subsection \<open>The state flags\<close>

lemma or_and_other: "n \<noteq> m \<Longrightarrow> ((x::32 word) OR 2 ^ n) AND 2 ^ m = x AND 2 ^ m"
  by (rule bit_word_eqI) (auto simp add: bit_simps)

lemma or_and_same: "((x::32 word) OR y) AND y = y"
  by (simp add: word_bw_comms word_ao_absorbs)

lemma flag_frame:
  "(x OR READER_TERMINATED) AND WRITER_TERMINATED = x AND WRITER_TERMINATED"
  "(x OR WRITER_TERMINATED) AND READER_TERMINATED = x AND READER_TERMINATED"
  "(x OR READER_TERMINATION_REQUESTED) AND READER_TERMINATED = x AND READER_TERMINATED"
  "(x OR READER_TERMINATION_REQUESTED) AND WRITER_TERMINATED = x AND WRITER_TERMINATED"
  using or_and_other [of 0 1 x] or_and_other [of 1 0 x] or_and_other [of 2 0 x]
    or_and_other [of 2 1 x]
  by (simp_all add: READER_TERMINATED_def WRITER_TERMINATED_def
      READER_TERMINATION_REQUESTED_def)

lemma flag_set:
  "(x OR READER_TERMINATED) AND READER_TERMINATED \<noteq> 0"
  "(x OR WRITER_TERMINATED) AND WRITER_TERMINATED \<noteq> 0"
  "(x OR READER_TERMINATION_REQUESTED) AND READER_TERMINATION_REQUESTED \<noteq> 0"
  "READER_TERMINATED \<noteq> 0"
  "WRITER_TERMINATED \<noteq> 0"
  "READER_TERMINATION_REQUESTED \<noteq> 0"
  by (simp_all add: or_and_same READER_TERMINATED_def WRITER_TERMINATED_def
      READER_TERMINATION_REQUESTED_def)

lemma flag_nonzero: "(x::32 word) AND y \<noteq> 0 \<Longrightarrow> x \<noteq> 0"
  by auto


subsection \<open>The shutdown handshake\<close>

lemma step_inv:
  assumes "handshake_inv q0 c cfg" and "step c a cfg = Some cfg'"
  shows "handshake_inv q0 c cfg'"
proof -
  obtain rd wr w where cfg: "cfg = (rd, wr, w)"
    by (cases cfg)
  show ?thesis
  proof (cases a)
    case ReaderFetch
    with assms cfg show ?thesis
      by (cases rd; cases wr)
         (auto simp: handshake_inv_def old_of_def enqueued_def fetch_or_def flag_frame flag_set)
  next
    case ReaderBranch
    with assms cfg show ?thesis
      by (cases rd; cases wr)
         (auto simp: handshake_inv_def old_of_def enqueued_def onReaderShutdown_branch_def
            removeClient_def at_session_def)
  next
    case WriterFetch
    with assms cfg show ?thesis
      by (cases rd; cases wr)
         (auto simp: handshake_inv_def old_of_def enqueued_def fetch_or_def flag_frame flag_set)
  next
    case WriterBranch
    with assms cfg show ?thesis
      by (cases rd; cases wr)
         (auto simp: handshake_inv_def old_of_def enqueued_def onWriterShutdown_branch_def
            removeClient_def try_session_def interruptReader_def fetch_or_def flag_frame
            split: if_splits sum.splits)
  next
    case Terminate
    with assms cfg show ?thesis
      by (auto simp: handshake_inv_def try_session_def terminate_def interruptReader_def
            fetch_or_def flag_frame split: if_splits sum.splits)
  next
    case (Send msg)
    with assms cfg show ?thesis
      by (auto simp: handshake_inv_def at_session_def sendMessage_def)
  qed
qed

lemma steps_inv:
  "handshake_inv q0 c cfg \<Longrightarrow> steps c sched cfg = Some cfg' \<Longrightarrow> handshake_inv q0 c cfg'"
proof (induction sched arbitrary: cfg)
  case Nil
  then show ?case by simp
next
  case (Cons a sched)
  then show ?case
    by (auto split: option.splits dest: step_inv)
qed

lemma step_queue:
  assumes "step c a (rd0, wr0, w0) = Some (rd1, wr1, w1)"
  shows "clientsToRemove w1 =
           clientsToRemove w0 @
             (if (a = ReaderBranch \<and> (\<exists>v. rd0 = Fetched v \<and> v AND WRITER_TERMINATED \<noteq> 0)) \<or>
                 (a = WriterBranch \<and> (\<exists>v. wr0 = Fetched v \<and> v AND READER_TERMINATED \<noteq> 0))
              then [c] else [])"
proof (cases a)
  case ReaderFetch
  with assms show ?thesis
    by (cases rd0) (auto simp: fetch_or_def)
next
  case ReaderBranch
  with assms show ?thesis
    by (cases rd0)
       (auto simp: onReaderShutdown_branch_def removeClient_def at_session_def)
next
  case WriterFetch
  with assms show ?thesis
    by (cases wr0) (auto simp: fetch_or_def)
next
  case WriterBranch
  with assms show ?thesis
    by (cases wr0)
       (auto simp: onWriterShutdown_branch_def removeClient_def try_session_def
          split: if_splits sum.splits)
next
  case Terminate
  with assms show ?thesis
    by (auto simp: try_session_def split: sum.splits)
next
  case (Send msg)
  with assms show ?thesis
    by (auto simp: at_session_def)
qed

lemma reader_steps:
  "steps c [ReaderFetch, ReaderBranch] (Running, wr0, w0) =
     Some (Left (state (heap w0 c)), wr0, onReaderShutdown c w0)"
  by (simp add: onReaderShutdown_def fetch_or_def)

lemma writer_steps:
  "steps c [WriterFetch, WriterBranch] (rd0, Running, w0) =
     (case onWriterShutdown c w0 of
        Inl e \<Rightarrow> None
      | Inr w1 \<Rightarrow> Some (rd0, Left (state (heap w0 c)), w1))"
  by (simp add: onWriterShutdown_def fetch_or_def split: sum.splits)

text \<open>
  Claim C1. Take a session whose two flags are clear and any schedule of the atomic
  steps of its reader and writer, mixed with \<^verbatim>\<open>terminate\<close> and \<^verbatim>\<open>sendMessage\<close> calls from
  other threads. At every point of the schedule the reclamation queue has grown by this
  session exactly if a thread has left its branch with an old value that shows the other
  thread's flag, and the old value returned by a thread's \<^verbatim>\<open>fetch_or\<close> shows the other
  thread's flag exactly if the other thread did its \<^verbatim>\<open>fetch_or\<close> first. So when both
  threads have left their shutdown functions, the session has been enqueued exactly
  once and exactly one old value shows the other flag. The only steps that enqueue are
  the branch steps of a thread whose old value shows the other thread's flag. The two
  steps of a thread, run one after the other, are \<^verbatim>\<open>onReaderShutdown\<close> and
  \<^verbatim>\<open>onWriterShutdown\<close>.
\<close>

theorem enqueued_exactly_once:
  "(steps c sched (Running, Running, w) = Some (rd, wr, w') \<and>
    state (heap w c) AND READER_TERMINATED = 0 \<and>
    state (heap w c) AND WRITER_TERMINATED = 0 \<longrightarrow>
      clientsToRemove w' =
        clientsToRemove w @
          (if (\<exists>v. rd = Left v \<and> v AND WRITER_TERMINATED \<noteq> 0) \<or>
              (\<exists>v. wr = Left v \<and> v AND READER_TERMINATED \<noteq> 0)
           then [c] else []) \<and>
      (\<forall>ro. rd = Fetched ro \<or> rd = Left ro \<longrightarrow>
         (ro AND WRITER_TERMINATED \<noteq> 0) =
           (\<exists>wo. (wr = Fetched wo \<or> wr = Left wo) \<and> wo AND READER_TERMINATED = 0)) \<and>
      (\<forall>wo. wr = Fetched wo \<or> wr = Left wo \<longrightarrow>
         (wo AND READER_TERMINATED \<noteq> 0) =
           (\<exists>ro. (rd = Fetched ro \<or> rd = Left ro) \<and> ro AND WRITER_TERMINATED = 0)) \<and>
      (\<forall>ro wo. rd = Left ro \<and> wr = Left wo \<longrightarrow>
         clientsToRemove w' = clientsToRemove w @ [c] \<and>
         (ro AND WRITER_TERMINATED \<noteq> 0) \<noteq> (wo AND READER_TERMINATED \<noteq> 0))) \<and>
   (step c a (rd0, wr0, w0) = Some (rd1, wr1, w1) \<longrightarrow>
      clientsToRemove w1 =
        clientsToRemove w0 @
          (if (a = ReaderBranch \<and> (\<exists>v. rd0 = Fetched v \<and> v AND WRITER_TERMINATED \<noteq> 0)) \<or>
              (a = WriterBranch \<and> (\<exists>v. wr0 = Fetched v \<and> v AND READER_TERMINATED \<noteq> 0))
           then [c] else [])) \<and>
   steps c [ReaderFetch, ReaderBranch] (Running, wr0, w0) =
     Some (Left (state (heap w0 c)), wr0, onReaderShutdown c w0) \<and>
   steps c [WriterFetch, WriterBranch] (rd0, Running, w0) =
     (case onWriterShutdown c w0 of
        Inl e \<Rightarrow> None
      | Inr w2 \<Rightarrow> Some (rd0, Left (state (heap w0 c)), w2))"
proof -
  have "handshake_inv (clientsToRemove w) c (rd, wr, w')"
    if "steps c sched (Running, Running, w) = Some (rd, wr, w')"
      and "state (heap w c) AND READER_TERMINATED = 0"
      and "state (heap w c) AND WRITER_TERMINATED = 0"
  proof -
    have "handshake_inv (clientsToRemove w) c (Running, Running, w)"
      using that(2,3) by (simp add: handshake_inv_def old_of_def enqueued_def)
    from steps_inv [OF this that(1)] show ?thesis .
  qed
  then have first: "steps c sched (Running, Running, w) = Some (rd, wr, w') \<and>
    state (heap w c) AND READER_TERMINATED = 0 \<and>
    state (heap w c) AND WRITER_TERMINATED = 0 \<longrightarrow>
      clientsToRemove w' =
        clientsToRemove w @
          (if (\<exists>v. rd = Left v \<and> v AND WRITER_TERMINATED \<noteq> 0) \<or>
              (\<exists>v. wr = Left v \<and> v AND READER_TERMINATED \<noteq> 0)
           then [c] else []) \<and>
      (\<forall>ro. rd = Fetched ro \<or> rd = Left ro \<longrightarrow>
         (ro AND WRITER_TERMINATED \<noteq> 0) =
           (\<exists>wo. (wr = Fetched wo \<or> wr = Left wo) \<and> wo AND READER_TERMINATED = 0)) \<and>
      (\<forall>wo. wr = Fetched wo \<or> wr = Left wo \<longrightarrow>
         (wo AND READER_TERMINATED \<noteq> 0) =
           (\<exists>ro. (rd = Fetched ro \<or> rd = Left ro) \<and> ro AND WRITER_TERMINATED = 0)) \<and>
      (\<forall>ro wo. rd = Left ro \<and> wr = Left wo \<longrightarrow>
         clientsToRemove w' = clientsToRemove w @ [c] \<and>
         (ro AND WRITER_TERMINATED \<noteq> 0) \<noteq> (wo AND READER_TERMINATED \<noteq> 0))"
    by (cases rd; cases wr) (auto simp: handshake_inv_def old_of_def enqueued_def)
  show ?thesis
    using first step_queue [of c a rd0 wr0 w0 rd1 wr1 w1] reader_steps [of c wr0 w0]
      writer_steps [of c rd0 w0]
    by blast
qed

subsection \<open>The example states, evaluated\<close>

lemma two_clients_eq:
  "two_clients =
     newChatServer
       \<lparr>heap := (\<lambda>c. newClientSession)(0 := start newClientSession, 1 := start newClientSession),
        nextId := 3, clients := {0, 1}\<rparr>"
  by (simp add: two_clients_def connection_def make_shared_def newChatServer_def at_session_def
       Let_def insert_commute fun_eq_iff)

lemma two_clients_facts:
  "heap two_clients 0 = start newClientSession"
  "clientsToRemove two_clients = []"
  "\<not> isTerminating two_clients"
  "clients two_clients = {0, 1}"
  "nextId two_clients = 3"
  "cout two_clients = []"
  by (simp_all add: two_clients_eq newChatServer_def)

lemma started_session:
  "state (start newClientSession) = 0"
  "joinable (start newClientSession)"
  "messages (start newClientSession) = []"
  "writerNotifies (start newClientSession) = 0"
  "readerSignals (start newClientSession) = 0"
  "writeError (start newClientSession) = None"
  "written (start newClientSession) = []"
  "\<not> nameValid (start newClientSession)"
  by (simp_all add: start_def newClientSession_def joinable_def ALL_RUNNING_def)

theorem enqueued_exactly_once_witness:
  "fst (the (steps 0 [ReaderFetch, Terminate, WriterFetch, WriterBranch, ReaderBranch]
               (Running, Running, two_clients))) = Left 0 \<and>
   fst (snd (the (steps 0 [ReaderFetch, Terminate, WriterFetch, WriterBranch, ReaderBranch]
                    (Running, Running, two_clients)))) = Left 5 \<and>
   clientsToRemove
     (snd (snd (the (steps 0 [ReaderFetch, Terminate, WriterFetch, WriterBranch, ReaderBranch]
                       (Running, Running, two_clients))))) = [0]"
proof -
  have "\<exists>w'. steps 0 [ReaderFetch, Terminate, WriterFetch, WriterBranch, ReaderBranch]
               (Running, Running, two_clients) = Some (Left 0, Left 5, w')"
    by (simp add: fetch_or_def two_clients_facts started_session
        READER_TERMINATED_def WRITER_TERMINATED_def READER_TERMINATION_REQUESTED_def
        onReaderShutdown_branch_def onWriterShutdown_branch_def removeClient_def at_session_def
        try_session_def terminate_def interruptReader_def joinable_def start_def
        newClientSession_def ALL_RUNNING_def)
  then obtain w' where
    run: "steps 0 [ReaderFetch, Terminate, WriterFetch, WriterBranch, ReaderBranch]
            (Running, Running, two_clients) = Some (Left 0, Left 5, w')"
    by blast
  have "state (heap two_clients 0) AND READER_TERMINATED = 0"
    and "state (heap two_clients 0) AND WRITER_TERMINATED = 0"
    by (simp_all add: two_clients_facts started_session)
  with run enqueued_exactly_once [of 0
      "[ReaderFetch, Terminate, WriterFetch, WriterBranch, ReaderBranch]" two_clients
      "Left 0" "Left 5" w']
  have "clientsToRemove w' = clientsToRemove two_clients @ [0]"
    by blast
  then show ?thesis
    unfolding run by (simp add: two_clients_facts)
qed

subsection \<open>The writer loop and the outbound queue\<close>

lemma writerLoop_stopped: "state s \<noteq> ALL_RUNNING \<Longrightarrow> writerLoop s = (Returned, s)"
  by (subst writerLoop.simps) (simp add: getMessage_def)

lemma writerLoop_idle:
  "state s = ALL_RUNNING \<Longrightarrow> messages s = [] \<Longrightarrow> writerLoop s = (Waiting, s)"
  by (subst writerLoop.simps) (simp add: getMessage_def)

lemma writerLoop_send:
  "state s = ALL_RUNNING \<Longrightarrow> messages s = msg # rest \<Longrightarrow> writeError s = None \<Longrightarrow>
   writerLoop s = writerLoop (s\<lparr>messages := rest, written := written s @ [msg]\<rparr>)"
  by (subst writerLoop.simps) (simp add: getMessage_def asio_write_def)

lemma writerLoop_fail:
  "state s = ALL_RUNNING \<Longrightarrow> messages s = msg # rest \<Longrightarrow> writeError s = Some what \<Longrightarrow>
   writerLoop s = (Raised (Exception what), s\<lparr>messages := rest\<rparr>)"
  by (subst writerLoop.simps) (simp add: getMessage_def asio_write_def)

lemma writerLoop_running:
  "state s = ALL_RUNNING \<Longrightarrow> fst (writerLoop s) \<noteq> Returned"
proof (induction s rule: writerLoop.induct)
  case (1 s)
  show ?case
  proof (cases "messages s")
    case Nil
    with 1 show ?thesis by (simp add: writerLoop_idle)
  next
    case (Cons msg rest)
    show ?thesis
    proof (cases "writeError s")
      case None
      let ?s2 = "s\<lparr>messages := rest, written := written s @ [msg]\<rparr>"
      have g: "getMessage s = Some (Some msg, s\<lparr>messages := rest\<rparr>)"
        using 1(2) Cons by (simp add: getMessage_def)
      have a: "asio_write msg (s\<lparr>messages := rest\<rparr>) = Inr ?s2"
        using None by (simp add: asio_write_def)
      have "fst (writerLoop ?s2) \<noteq> Returned"
        using 1(1) [OF g refl refl a] 1(2) by simp
      then show ?thesis
        using writerLoop_send [OF 1(2) Cons None] by simp
    next
      case (Some what)
      then show ?thesis
        using writerLoop_fail [OF 1(2) Cons Some] by simp
    qed
  qed
qed

lemma writerLoop_drains:
  "state s = ALL_RUNNING \<Longrightarrow> writeError s = None \<Longrightarrow>
   writerLoop s = (Waiting, s\<lparr>messages := [], written := written s @ messages s\<rparr>)"
proof (induction "messages s" arbitrary: s)
  case Nil
  then show ?case by (simp add: writerLoop_idle)
next
  case (Cons msg rest)
  let ?s2 = "s\<lparr>messages := rest, written := written s @ [msg]\<rparr>"
  have "writerLoop ?s2 = (Waiting, ?s2\<lparr>messages := [], written := written ?s2 @ messages ?s2\<rparr>)"
    using Cons by (intro Cons(1)) simp_all
  then show ?case
    using writerLoop_send [OF Cons(3) Cons(2) [symmetric] Cons(4)] Cons(2) [symmetric] by simp
qed

text \<open>
  Claim C2, as the code has it. The loop of the writer returns exactly when it finds
  \<^verbatim>\<open>_state\<close> different from \<^verbatim>\<open>ALL_RUNNING\<close>, and then it returns at once: nothing is
  dequeued and nothing is sent, whatever the queue holds. While \<^verbatim>\<open>_state\<close> is
  \<^verbatim>\<open>ALL_RUNNING\<close> and the connection is up, a non-empty queue loses its first message to
  the socket before the loop checks again, so that in the end the whole queue has been
  written in order and the writer waits.
\<close>

theorem writerLoop_exit:
  "(fst (writerLoop s) = Returned) = (state s \<noteq> ALL_RUNNING) \<and>
   (state s \<noteq> ALL_RUNNING \<longrightarrow> writerLoop s = (Returned, s)) \<and>
   (state s = ALL_RUNNING \<and> writeError s = None \<and> messages s = msg # rest \<longrightarrow>
      writerLoop s = writerLoop (s\<lparr>messages := rest, written := written s @ [msg]\<rparr>)) \<and>
   (state s = ALL_RUNNING \<and> writeError s = None \<longrightarrow>
      writerLoop s = (Waiting, s\<lparr>messages := [], written := written s @ messages s\<rparr>))"
  using writerLoop_stopped [of s] writerLoop_running [of s] writerLoop_drains [of s]
    writerLoop_send [of s msg rest]
  by auto

theorem writerLoop_exit_witness:
  "writerLoop ((start newClientSession)\<lparr>state := READER_TERMINATION_REQUESTED\<rparr>) =
     (Returned, (start newClientSession)\<lparr>state := READER_TERMINATION_REQUESTED\<rparr>) \<and>
   writerLoop (sendMessage ''a'' (sendMessage ''b'' newClientSession)) =
     (Waiting, (sendMessage ''a'' (sendMessage ''b'' newClientSession))
                 \<lparr>messages := [], written := [''b'', ''a'']\<rparr>)"
proof -
  have "state ((start newClientSession)\<lparr>state := READER_TERMINATION_REQUESTED\<rparr>) \<noteq> ALL_RUNNING"
    by (simp add: ALL_RUNNING_def READER_TERMINATION_REQUESTED_def)
  moreover have "state (sendMessage ''a'' (sendMessage ''b'' newClientSession)) = ALL_RUNNING"
    and "writeError (sendMessage ''a'' (sendMessage ''b'' newClientSession)) = None"
    and "messages (sendMessage ''a'' (sendMessage ''b'' newClientSession)) = ''b'' # [''a'']"
    and "written (sendMessage ''a'' (sendMessage ''b'' newClientSession)) = []"
    by (simp_all add: sendMessage_def newClientSession_def)
  moreover note stopped =
    writerLoop_exit [of "(start newClientSession)\<lparr>state := READER_TERMINATION_REQUESTED\<rparr>"]
  moreover note drained =
    writerLoop_exit [of "sendMessage ''a'' (sendMessage ''b'' newClientSession)" "''b''" "[''a'']"]
  ultimately show ?thesis
    using conjunct1 [OF conjunct2 [OF stopped]]
      conjunct2 [OF conjunct2 [OF conjunct2 [OF drained]]]
    by simp
qed

text \<open>
  The claim as stated fails: a message is queued for a started session, then
  termination is requested; the loop returns with the message still in the queue and
  nothing written.
\<close>

theorem writerLoop_leaves_queue:
  "terminate (sendMessage ''hello'' (start newClientSession)) =
     Inr ((sendMessage ''hello'' (start newClientSession))
            \<lparr>state := READER_TERMINATION_REQUESTED, readerSignals := 1\<rparr>) \<and>
   writerLoop ((sendMessage ''hello'' (start newClientSession))
                 \<lparr>state := READER_TERMINATION_REQUESTED, readerSignals := 1\<rparr>) =
     (Returned, (sendMessage ''hello'' (start newClientSession))
                  \<lparr>state := READER_TERMINATION_REQUESTED, readerSignals := 1\<rparr>) \<and>
   messages ((sendMessage ''hello'' (start newClientSession))
               \<lparr>state := READER_TERMINATION_REQUESTED, readerSignals := 1\<rparr>) = [''hello''] \<and>
   written ((sendMessage ''hello'' (start newClientSession))
              \<lparr>state := READER_TERMINATION_REQUESTED, readerSignals := 1\<rparr>) = []"
proof -
  have "state ((sendMessage ''hello'' (start newClientSession))
                 \<lparr>state := READER_TERMINATION_REQUESTED, readerSignals := 1\<rparr>) \<noteq> ALL_RUNNING"
    by (simp add: ALL_RUNNING_def READER_TERMINATION_REQUESTED_def)
  then show ?thesis
    by (simp add: writerLoop_stopped)
       (simp add: terminate_def interruptReader_def fetch_or_def sendMessage_def joinable_def
          start_def newClientSession_def ALL_RUNNING_def)
qed

text \<open>
  Claim C9. \<^verbatim>\<open>sendMessage\<close> has no failing branch: in every state of the session it
  appends the message at the tail of the queue, and it touches neither \<^verbatim>\<open>_state\<close> nor the
  socket. When both threads have terminated, the message stays where it is: \<^verbatim>\<open>getMessage\<close>
  would return the empty pointer without dequeuing, and the writer loop would return at
  once.
\<close>

theorem sendMessage_never_fails:
  "messages (sendMessage msg s) = messages s @ [msg] \<and>
   state (sendMessage msg s) = state s \<and>
   written (sendMessage msg s) = written s \<and>
   (state s AND READER_TERMINATED \<noteq> 0 \<and> state s AND WRITER_TERMINATED \<noteq> 0 \<longrightarrow>
      getMessage (sendMessage msg s) = Some (None, sendMessage msg s) \<and>
      writerLoop (sendMessage msg s) = (Returned, sendMessage msg s))"
proof -
  have "state s AND READER_TERMINATED \<noteq> 0 \<Longrightarrow> state (sendMessage msg s) \<noteq> ALL_RUNNING"
    by (auto simp: sendMessage_def ALL_RUNNING_def)
  then show ?thesis
    using writerLoop_stopped [of "sendMessage msg s"]
    by (auto simp: sendMessage_def getMessage_def)
qed

theorem sendMessage_never_fails_witness:
  "messages (sendMessage ''late'' (newClientSession\<lparr>state := 3\<rparr>)) = [''late''] \<and>
   writerLoop (sendMessage ''late'' (newClientSession\<lparr>state := 3\<rparr>)) =
     (Returned, sendMessage ''late'' (newClientSession\<lparr>state := 3\<rparr>))"
  using sendMessage_never_fails [of "''late''" "newClientSession\<lparr>state := 3\<rparr>"]
  by (simp add: newClientSession_def READER_TERMINATED_def WRITER_TERMINATED_def)

subsection \<open>Termination requests\<close>

lemma interruptReader_joinable:
  "joinable s \<Longrightarrow>
   interruptReader s =
     Inr (s\<lparr>state := state s OR READER_TERMINATION_REQUESTED,
            readerSignals := Suc (readerSignals s)\<rparr>)"
  by (simp add: interruptReader_def fetch_or_def joinable_def)

lemma interruptReader_no_thread: "\<not> joinable s \<Longrightarrow> interruptReader s = Inl BadThreadHandle"
  by (simp add: interruptReader_def fetch_or_def joinable_def)

lemma interruptReader_result:
  "interruptReader s = Inr s' \<Longrightarrow>
   joinable s \<and>
   s' = s\<lparr>state := state s OR READER_TERMINATION_REQUESTED,
          readerSignals := Suc (readerSignals s)\<rparr>"
  by (cases "joinable s") (simp_all add: interruptReader_joinable interruptReader_no_thread)

text \<open>
  Claim C3, as the code has it. As long as the reader's thread object holds a thread
  (from \<^verbatim>\<open>start()\<close> until the reaper has joined it), \<^verbatim>\<open>terminate\<close> sets
  \<^verbatim>\<open>READER_TERMINATION_REQUESTED\<close> (setting it again changes nothing), sends one signal
  to the reader thread, and changes nothing else: it does not notify
  \<^verbatim>\<open>_writerCondition\<close>, and the outbound queue and the reclamation queue stay as they are,
  also when both threads have already terminated. A writer that wakes up afterwards leaves
  its loop at once. The notification of the writer comes from \<^verbatim>\<open>onReaderShutdown\<close>, when
  the reader finishes before the writer.
\<close>

theorem terminate_effects:
  "(joinable s \<longrightarrow>
      terminate s =
        Inr (s\<lparr>state := state s OR READER_TERMINATION_REQUESTED,
               readerSignals := Suc (readerSignals s)\<rparr>)) \<and>
   (joinable (heap w c) \<longrightarrow>
      try_session c terminate w =
        Inr (at_session c
               (\<lambda>s. s\<lparr>state := state s OR READER_TERMINATION_REQUESTED,
                      readerSignals := Suc (readerSignals s)\<rparr>) w)) \<and>
   (terminate s = Inr s' \<longrightarrow>
      state s' = state s OR READER_TERMINATION_REQUESTED \<and>
      state s' AND READER_TERMINATION_REQUESTED \<noteq> 0 \<and>
      readerSignals s' = Suc (readerSignals s) \<and>
      writerNotifies s' = writerNotifies s \<and>
      messages s' = messages s \<and>
      writerLoop s' = (Returned, s') \<and>
      terminate s' = Inr (s'\<lparr>readerSignals := Suc (readerSignals s')\<rparr>)) \<and>
   (try_session c terminate w = Inr w' \<longrightarrow>
      clientsToRemove w' = clientsToRemove w \<and> reaperNotifies w' = reaperNotifies w \<and>
      clients w' = clients w \<and> namesToClients w' = namesToClients w) \<and>
   (state (heap w c) AND WRITER_TERMINATED = 0 \<longrightarrow>
      writerNotifies (heap (onReaderShutdown c w) c) = Suc (writerNotifies (heap w c)))"
proof -
  have a: "state s' = state s OR READER_TERMINATION_REQUESTED \<and>
      state s' AND READER_TERMINATION_REQUESTED \<noteq> 0 \<and>
      readerSignals s' = Suc (readerSignals s) \<and>
      writerNotifies s' = writerNotifies s \<and>
      messages s' = messages s \<and>
      writerLoop s' = (Returned, s') \<and>
      terminate s' = Inr (s'\<lparr>readerSignals := Suc (readerSignals s')\<rparr>)"
    if "terminate s = Inr s'"
  proof -
    from that have s': "joinable s"
      "s' = s\<lparr>state := state s OR READER_TERMINATION_REQUESTED,
             readerSignals := Suc (readerSignals s)\<rparr>"
      using interruptReader_result [of s s'] by (simp_all add: terminate_def)
    have "state s' \<noteq> ALL_RUNNING"
      using flag_nonzero [OF flag_set(3) [of "state s"]] s'(2) by (simp add: ALL_RUNNING_def)
    then have "writerLoop s' = (Returned, s')"
      by (rule writerLoop_stopped)
    moreover have "joinable s'"
      using s' by (simp add: joinable_def)
    ultimately show ?thesis
      using s'(2) interruptReader_joinable [of s']
      by (simp add: terminate_def flag_set word_bw_assocs)
  qed
  have b: "clientsToRemove w' = clientsToRemove w \<and> reaperNotifies w' = reaperNotifies w \<and>
      clients w' = clients w \<and> namesToClients w' = namesToClients w"
    if "try_session c terminate w = Inr w'"
    using that by (auto simp: try_session_def split: sum.splits)
  have c: "writerNotifies (heap (onReaderShutdown c w) c) = Suc (writerNotifies (heap w c))"
    if "state (heap w c) AND WRITER_TERMINATED = 0"
    using that
    by (simp add: onReaderShutdown_def onReaderShutdown_branch_def fetch_or_def at_session_def)
  have d: "try_session c terminate w =
        Inr (at_session c
               (\<lambda>s. s\<lparr>state := state s OR READER_TERMINATION_REQUESTED,
                      readerSignals := Suc (readerSignals s)\<rparr>) w)"
    if "joinable (heap w c)"
    using that by (simp add: try_session_def terminate_def interruptReader_joinable at_session_def)
  have e: "terminate s =
        Inr (s\<lparr>state := state s OR READER_TERMINATION_REQUESTED,
               readerSignals := Suc (readerSignals s)\<rparr>)"
    if "joinable s"
    using that by (simp add: terminate_def interruptReader_joinable)
  from a b c d e show ?thesis
    by blast
qed

theorem terminate_effects_witness:
  "terminate ((start newClientSession)\<lparr>state := 3\<rparr>) =
     Inr ((start newClientSession)\<lparr>state := 7, readerSignals := 1\<rparr>) \<and>
   clientsToRemove
     (at_session 0 (\<lambda>s. s\<lparr>state := state s OR READER_TERMINATION_REQUESTED,
                          readerSignals := Suc (readerSignals s)\<rparr>) two_clients) = [] \<and>
   writerNotifies (heap two_clients 0) = 0 \<and>
   writerNotifies (heap (onReaderShutdown 0 two_clients) 0) = 1"
proof -
  have j: "joinable ((start newClientSession)\<lparr>state := 3\<rparr>)" "joinable (heap two_clients 0)"
    by (simp_all add: two_clients_facts joinable_def start_def newClientSession_def)
  have f: "state (heap two_clients 0) AND WRITER_TERMINATED = 0"
    "writerNotifies (heap two_clients 0) = 0"
    by (simp_all add: two_clients_facts started_session)
  note quiesced = terminate_effects [of "(start newClientSession)\<lparr>state := 3\<rparr>"
      two_clients 0
      "(start newClientSession)\<lparr>state := 7, readerSignals := 1\<rparr>"
      "at_session 0 (\<lambda>s. s\<lparr>state := state s OR READER_TERMINATION_REQUESTED,
                          readerSignals := Suc (readerSignals s)\<rparr>) two_clients"]
  have 1: "terminate ((start newClientSession)\<lparr>state := 3\<rparr>) =
     Inr ((start newClientSession)\<lparr>state := 7, readerSignals := 1\<rparr>)"
    using conjunct1 [OF quiesced] j(1)
    by (simp add: start_def newClientSession_def READER_TERMINATION_REQUESTED_def)
  have "try_session 0 terminate two_clients =
      Inr (at_session 0 (\<lambda>s. s\<lparr>state := state s OR READER_TERMINATION_REQUESTED,
                          readerSignals := Suc (readerSignals s)\<rparr>) two_clients)"
    using conjunct1 [OF conjunct2 [OF quiesced]] j(2) by blast
  then have 2: "clientsToRemove
     (at_session 0 (\<lambda>s. s\<lparr>state := state s OR READER_TERMINATION_REQUESTED,
                          readerSignals := Suc (readerSignals s)\<rparr>) two_clients) = []"
    using conjunct1 [OF conjunct2 [OF conjunct2 [OF conjunct2 [OF quiesced]]]]
    by (simp add: two_clients_facts)
  have 3: "writerNotifies (heap (onReaderShutdown 0 two_clients) 0) = 1"
    using conjunct2 [OF conjunct2 [OF conjunct2 [OF conjunct2 [OF quiesced]]]] f by simp
  from 1 2 3 f(2) show ?thesis
    by blast
qed

text \<open>
  The claim as stated fails: with the writer of a started session waiting on its empty
  queue, \<^verbatim>\<open>terminate\<close> succeeds and makes no call of \<^verbatim>\<open>notify_one\<close>.
\<close>

theorem terminate_no_notify:
  "writerLoop (heap two_clients 0) = (Waiting, heap two_clients 0) \<and>
   try_session 0 terminate two_clients =
     Inr (at_session 0
            (\<lambda>s. s\<lparr>state := READER_TERMINATION_REQUESTED, readerSignals := 1\<rparr>) two_clients) \<and>
   writerNotifies
     (heap (at_session 0
              (\<lambda>s. s\<lparr>state := READER_TERMINATION_REQUESTED, readerSignals := 1\<rparr>) two_clients) 0) =
     writerNotifies (heap two_clients 0)"
proof -
  have "state (heap two_clients 0) = ALL_RUNNING" and "messages (heap two_clients 0) = []"
    by (simp_all add: two_clients_facts started_session ALL_RUNNING_def)
  then have "writerLoop (heap two_clients 0) = (Waiting, heap two_clients 0)"
    by (rule writerLoop_idle)
  then show ?thesis
    by (simp add: try_session_def at_session_def terminate_def interruptReader_def fetch_or_def
        two_clients_facts joinable_def start_def newClientSession_def ALL_RUNNING_def)
qed

subsection \<open>The named example states\<close>

lemma alice_named_eq:
  "alice_named =
     two_clients
       \<lparr>heap := (heap two_clients)
                  (0 := (heap two_clients 0)\<lparr>name := ''alice'', nameValid := True\<rparr>),
        namesToClients := [(''alice'', 0)]\<rparr>"
  by (simp add: alice_named_def setClientName_def two_clients_eq newChatServer_def setName_def
      start_def newClientSession_def)

lemma alice_named_facts:
  "state (heap alice_named 1) = ALL_RUNNING"
  "writeError (heap alice_named 1) = None"
  "\<not> nameValid (heap alice_named 1)"
  "written (heap alice_named 1) = []"
  "namesToClients alice_named = [(''alice'', 0)]"
  "1 \<in> clients alice_named"
  "started (heap alice_named 1)"
  "messages (heap alice_named 1) = []"
  by (simp_all add: alice_named_eq two_clients_eq newChatServer_def start_def
      newClientSession_def)

lemma alice_named_simps:
  "state (heap alice_named (Suc 0)) = ALL_RUNNING"
  "writeError (heap alice_named (Suc 0)) = None"
  "\<not> nameValid (heap alice_named (Suc 0))"
  "written (heap alice_named (Suc 0)) = []"
  "Suc 0 \<in> clients alice_named"
  "started (heap alice_named (Suc 0))"
  "messages (heap alice_named (Suc 0)) = []"
  using alice_named_facts by simp_all

lemma both_named_eq:
  "both_named =
     alice_named
       \<lparr>heap := (heap alice_named)
                  (1 := (heap alice_named 1)\<lparr>name := ''bob'', nameValid := True\<rparr>),
        namesToClients := [(''alice'', 0), (''bob'', 1)]\<rparr>"
  by (simp add: both_named_def setClientName_def setName_def alice_named_facts
      alice_named_simps)

subsection \<open>The reaper\<close>

text \<open>
  Claim C4, as the code has it. The \<^verbatim>\<open>try\<close> block of \<^verbatim>\<open>reaperThread\<close> encloses the
  whole loop: when \<^verbatim>\<open>waitToFinish\<close> throws for the session at the head of the
  reclamation queue, the handler prints the exception and the reaper thread ends. The
  sessions behind it stay in the queue, and the live-set and the name map are not
  touched.
\<close>

theorem reaper_stops_at_failure:
  assumes "clientsToRemove w = c # rest"
    and "waitToFinish (heap w c) = Inl (Exception what)"
  shows "reaperThread w =
           (Finished,
            w\<lparr>clientsToRemove := rest,
              cout := cout w @ [''Reaper thread exception: '' @ what @ [CHR 0x0A]]\<rparr>)"
  using assms by (simp add: reaperThread_def reaperLoop.simps [of w])

theorem reaper_stops_at_failure_witness:
  "reaperThread two_quiesced =
     (Finished,
      two_quiesced\<lparr>clientsToRemove := [1],
                    cout := [''Reaper thread exception: Invalid argument'' @ [CHR 0x0A]]\<rparr>)"
proof -
  have "clientsToRemove two_quiesced = 0 # [1]"
    and "waitToFinish (heap two_quiesced 0) = Inl (Exception ''Invalid argument'')"
    and "cout two_quiesced = []"
    by (simp_all add: two_quiesced_def newChatServer_def newClientSession_def waitToFinish_def
        READER_TERMINATED_def WRITER_TERMINATED_def)
  from reaper_stops_at_failure [OF this(1,2)] this(3) show ?thesis
    by simp
qed

text \<open>
  The claim as stated fails: the second session is never reclaimed after the first
  one's join has thrown.
\<close>

theorem reaper_leaves_later_sessions:
  "fst (reaperThread two_quiesced) = Finished \<and>
   clientsToRemove (snd (reaperThread two_quiesced)) = [1] \<and>
   1 \<in> clients (snd (reaperThread two_quiesced))"
  by (simp add: reaperThread_def reaperLoop.simps [of two_quiesced])
     (simp add: two_quiesced_def newChatServer_def newClientSession_def waitToFinish_def
        READER_TERMINATED_def WRITER_TERMINATED_def)

subsection \<open>Broadcast\<close>

lemma broadcast_fold:
  "messages (heap (fold (\<lambda>receiver w'. if receiver \<noteq> sender
                              then at_session receiver (sendMessage msg) w' else w') rs w) r) =
     messages (heap w r) @ replicate (if r = sender then 0 else count_list rs r) msg"
proof (induction rs arbitrary: w)
  case Nil
  then show ?case by simp
next
  case (Cons a rs)
  show ?case
    by (simp add: Cons.IH at_session_def sendMessage_def replicate_append_same)
qed

lemma broadcast_frame:
  "clients (fold (\<lambda>receiver w'. if receiver \<noteq> sender
                              then at_session receiver (sendMessage msg) w' else w') rs w) = clients w"
  by (induction rs arbitrary: w) (simp_all add: at_session_def)

lemma count_list_distinct: "distinct xs \<Longrightarrow> count_list xs x = (if x \<in> set xs then 1 else 0)"
  by (induction xs) auto

text \<open>
  Claim C5, as the code has it. The receivers of \<^verbatim>\<open>broadcast\<close> are the sessions of the
  name map, not those of the live-set. With every session registered under one name at
  most, the message is appended once to the queue of every session of the name map other
  than the sender; the sender's queue, and the queue of every session that is not in the
  name map, stay as they are.
\<close>

theorem broadcast_receivers:
  assumes "distinct (map snd (namesToClients w))"
  shows "messages (heap (broadcast sender msg w) r) =
           (if r \<noteq> sender \<and> r \<in> snd ` set (namesToClients w)
            then messages (heap w r) @ [msg]
            else messages (heap w r))"
  using count_list_distinct [OF assms, of r]
  by (simp add: broadcast_def broadcast_fold)

theorem broadcast_receivers_witness:
  "messages (heap (broadcast 0 ''hi'' both_named) 1) = [''hi''] \<and>
   messages (heap (broadcast 0 ''hi'' both_named) 0) = []"
proof -
  have "distinct (map snd (namesToClients both_named))"
    by (simp add: both_named_eq)
  from broadcast_receivers [OF this, of 0 "''hi''" 1] broadcast_receivers [OF this, of 0 "''hi''" 0]
  show ?thesis
    by (simp add: both_named_eq alice_named_eq two_clients_eq newChatServer_def start_def
        newClientSession_def)
qed

text \<open>
  The claim as stated fails: session 1 is in the live-set and started, but has no name
  yet; a broadcast of session 0 does not reach its queue.
\<close>

theorem broadcast_skips_unnamed:
  "1 \<in> clients alice_named \<and> started (heap alice_named 1) \<and>
   messages (heap (broadcast 0 ''hi'' alice_named) 1) = []"
  by (simp add: alice_named_eq two_clients_eq broadcast_def newChatServer_def start_def
      newClientSession_def at_session_def)

subsection \<open>Name registration and the login loop\<close>

lemma map_of_insort:
  "map_of xs n = None \<Longrightarrow> map_of (insort_key fst (n, c) xs) n = Some c"
  by (induction xs) auto

lemma setClientName_taken:
  "n \<in> fst ` set (namesToClients w) \<Longrightarrow> setClientName c n w = Inr (False, w)"
  by (auto simp: setClientName_def map_of_eq_None_iff split: option.splits)

lemma setClientName_free:
  "n \<notin> fst ` set (namesToClients w) \<Longrightarrow> \<not> nameValid (heap w c) \<Longrightarrow>
   setClientName c n w =
     Inr (True, w\<lparr>heap := (heap w)(c := (heap w c)\<lparr>name := n, nameValid := True\<rparr>),
                  namesToClients := insort_key fst (n, c) (namesToClients w)\<rparr>)"
  by (auto simp: setClientName_def setName_def map_of_eq_None_iff [symmetric]
      simp del: map_of_eq_None_iff split: option.splits)

lemma attempts_taken:
  "n \<in> fst ` set (namesToClients w) \<Longrightarrow> attempts n cs w = Inr (replicate (length cs) False, w)"
  by (induction cs) (simp_all add: setClientName_taken)

lemma attempts_free:
  assumes "n \<notin> fst ` set (namesToClients w)" and "\<not> nameValid (heap w c)"
  shows "\<exists>w'. attempts n (c # cs) w = Inr (True # replicate (length cs) False, w') \<and>
              n \<in> fst ` set (namesToClients w')"
proof -
  let ?w1 = "w\<lparr>heap := (heap w)(c := (heap w c)\<lparr>name := n, nameValid := True\<rparr>),
                namesToClients := insort_key fst (n, c) (namesToClients w)\<rparr>"
  have "n \<in> fst ` set (namesToClients ?w1)"
    by (simp add: set_insort_key)
  then show ?thesis
    using setClientName_free [OF assms] attempts_taken [of n ?w1 cs] by simp
qed

lemma loginLoop_stopped:
  "state (heap w c) \<noteq> ALL_RUNNING \<Longrightarrow> loginLoop c ins w = (Returned, ins, w)"
  by (subst loginLoop.simps) simp

lemma loginLoop_taken:
  assumes "state (heap w c) = ALL_RUNNING" and "writeError (heap w c) = None"
    and "received i = Line n" and "n \<in> fst ` set (namesToClients w)"
  shows "loginLoop c (i # rest) w =
           loginLoop c rest
             (at_session c
                (\<lambda>s. s\<lparr>state := state s OR interference i,
                       written := written s @
                         [str, ''Name '' @ [CHR 0x27] @ n @ [CHR 0x27] @
                               '' is already taken, invent another one.'' @ [CHR 0x0A]]\<rparr>) w)"
proof -
  let ?w2 = "at_session c (\<lambda>s. s\<lparr>state := state s OR interference i\<rparr>)
               (w\<lparr>heap := (heap w)(c := (heap w c)\<lparr>written := written (heap w c) @ [str]\<rparr>)\<rparr>)"
  have "n \<in> fst ` set (namesToClients ?w2)"
    using assms(4) by (simp add: at_session_def)
  then have "setClientName c n ?w2 = Inr (False, ?w2)"
    by (rule setClientName_taken)
  then show ?thesis
    using assms(1,2,3)
    by (subst loginLoop.simps)
       (simp add: socket_write_def asio_write_def at_session_def Let_def)
qed

lemma loginLoop_welcome:
  assumes "state (heap w c) = ALL_RUNNING" and "writeError (heap w c) = None"
    and "received i = Line n" and "n \<notin> fst ` set (namesToClients w)"
    and "\<not> nameValid (heap w c)"
  shows "loginLoop c (i # rest) w =
           (Returned, rest,
            at_session c
              (\<lambda>s. s\<lparr>state := state s OR interference i, name := n, nameValid := True,
                     written := written s @
                       [str, ''Welcome to the chat, '' @ n @ ''!'' @ [CHR 0x0A]]\<rparr>)
              (w\<lparr>namesToClients := insort_key fst (n, c) (namesToClients w)\<rparr>))"
proof -
  let ?w2 = "at_session c (\<lambda>s. s\<lparr>state := state s OR interference i\<rparr>)
               (w\<lparr>heap := (heap w)(c := (heap w c)\<lparr>written := written (heap w c) @ [str]\<rparr>)\<rparr>)"
  have "n \<notin> fst ` set (namesToClients ?w2)" and "\<not> nameValid (heap ?w2 c)"
    using assms(4,5) by (simp_all add: at_session_def)
  note setClientName_free [OF this]
  then show ?thesis
    using assms(1,2,3)
    by (subst loginLoop.simps)
       (simp add: socket_write_def asio_write_def at_session_def Let_def)
qed


text \<open>
  Claim C6, as the code has it. For a session that has no name yet, \<^verbatim>\<open>setClientName\<close>
  succeeds exactly when the name is not a key of the name map, and afterwards the name
  is a key; for a name that is a key it fails and changes nothing. Of the calls for one
  free name, in whatever order the mutex admits them, the first succeeds and all later
  ones fail. In the login loop of the reader, with \<^verbatim>\<open>_state\<close> at \<^verbatim>\<open>ALL_RUNNING\<close> and the
  connection up, a taken name is answered with the "already taken" line and the loop
  goes round again, where it prompts again only if \<^verbatim>\<open>_state\<close> is still \<^verbatim>\<open>ALL_RUNNING\<close>
  and otherwise ends; a free name is answered with the welcome line and ends the loop.
\<close>

theorem name_registration:
  "(\<not> nameValid (heap w c) \<longrightarrow>
      (\<exists>w'. setClientName c n w = Inr (n \<notin> fst ` set (namesToClients w), w') \<and>
            n \<in> fst ` set (namesToClients w'))) \<and>
   (n \<in> fst ` set (namesToClients w) \<longrightarrow> setClientName c n w = Inr (False, w)) \<and>
   (\<not> nameValid (heap w c) \<and> n \<notin> fst ` set (namesToClients w) \<longrightarrow>
      (\<exists>w'. attempts n (c # cs) w = Inr (True # replicate (length cs) False, w'))) \<and>
   (state (heap w c) \<noteq> ALL_RUNNING \<longrightarrow> loginLoop c ins w = (Returned, ins, w)) \<and>
   (state (heap w c) = ALL_RUNNING \<and> writeError (heap w c) = None \<and> received i = Line n \<longrightarrow>
      (n \<in> fst ` set (namesToClients w) \<longrightarrow>
         loginLoop c (i # rest) w =
           loginLoop c rest
             (at_session c
                (\<lambda>s. s\<lparr>state := state s OR interference i,
                       written := written s @
                         [str, ''Name '' @ [CHR 0x27] @ n @ [CHR 0x27] @
                               '' is already taken, invent another one.'' @ [CHR 0x0A]]\<rparr>) w)) \<and>
      (n \<notin> fst ` set (namesToClients w) \<and> \<not> nameValid (heap w c) \<longrightarrow>
         loginLoop c (i # rest) w =
           (Returned, rest,
            at_session c
              (\<lambda>s. s\<lparr>state := state s OR interference i, name := n, nameValid := True,
                     written := written s @
                       [str, ''Welcome to the chat, '' @ n @ ''!'' @ [CHR 0x0A]]\<rparr>)
              (w\<lparr>namesToClients := insort_key fst (n, c) (namesToClients w)\<rparr>))))"
proof -
  have "\<exists>w'. setClientName c n w = Inr (n \<notin> fst ` set (namesToClients w), w') \<and>
             n \<in> fst ` set (namesToClients w')"
    if "\<not> nameValid (heap w c)"
  proof (cases "n \<in> fst ` set (namesToClients w)")
    case True
    then show ?thesis by (simp add: setClientName_taken)
  next
    case False
    then show ?thesis
      using setClientName_free [OF False that] by (simp add: set_insort_key)
  qed
  moreover have "\<exists>w'. attempts n (c # cs) w = Inr (True # replicate (length cs) False, w')"
    if "\<not> nameValid (heap w c)" and "n \<notin> fst ` set (namesToClients w)"
    using attempts_free [OF that(2,1)] by blast
  ultimately show ?thesis
    using setClientName_taken [of n w c] loginLoop_stopped [of w c ins]
      loginLoop_taken [of w c i n rest] loginLoop_welcome [of w c i n rest]
    by blast
qed

theorem name_registration_witness:
  "setClientName 1 ''alice'' alice_named = Inr (False, alice_named) \<and>
   (\<exists>w'. attempts ''bob'' [1, 2, 3] alice_named = Inr ([True, False, False], w')) \<and>
   loginLoop 1 [] (at_session 1 (\<lambda>s. s\<lparr>state := READER_TERMINATION_REQUESTED\<rparr>) alice_named) =
     (Returned, [],
      at_session 1 (\<lambda>s. s\<lparr>state := READER_TERMINATION_REQUESTED\<rparr>) alice_named) \<and>
   (\<exists>w'. loginLoop 1 [says ''alice'', says ''bob''] alice_named = (Returned, [], w') \<and>
         written (heap w' 1) =
           [str, ''Name '' @ [CHR 0x27] @ ''alice'' @ [CHR 0x27] @
                 '' is already taken, invent another one.'' @ [CHR 0x0A],
            str, ''Welcome to the chat, bob!'' @ [CHR 0x0A]] \<and>
         namesToClients w' = [(''alice'', 0), (''bob'', 1)])"
proof -
  let ?again = "at_session 1
      (\<lambda>s. s\<lparr>state := state s OR interference (says ''alice''),
             written := written s @
               [str, ''Name '' @ [CHR 0x27] @ ''alice'' @ [CHR 0x27] @
                     '' is already taken, invent another one.'' @ [CHR 0x0A]]\<rparr>) alice_named"
  have taken: "''alice'' \<in> fst ` set (namesToClients alice_named)"
    and free: "''bob'' \<notin> fst ` set (namesToClients alice_named)"
    by (simp_all add: alice_named_facts)
  have stopped: "state (heap (at_session 1 (\<lambda>s. s\<lparr>state := READER_TERMINATION_REQUESTED\<rparr>)
                               alice_named) 1) \<noteq> ALL_RUNNING"
    by (simp add: at_session_def ALL_RUNNING_def READER_TERMINATION_REQUESTED_def)
  have again: "state (heap ?again 1) = ALL_RUNNING" "writeError (heap ?again 1) = None"
    "\<not> nameValid (heap ?again 1)" "''bob'' \<notin> fst ` set (namesToClients ?again)"
    by (simp_all add: at_session_def alice_named_facts alice_named_simps says_def ALL_RUNNING_def)
  have said: "received (says ''alice'') = Line ''alice''" "received (says ''bob'') = Line ''bob''"
    by (simp_all add: says_def)
  note first = name_registration [of alice_named 1 "''alice''" "[]" "[]" "says ''alice''"
      "[says ''bob'']"]
  note second = name_registration [of ?again 1 "''bob''" "[]" "[]" "says ''bob''" "[]"]
  note third = name_registration [of alice_named 1 "''bob''" "[2, 3]" "[]" "says ''bob''" "[]"]
  note fourth = name_registration [of
      "at_session 1 (\<lambda>s. s\<lparr>state := READER_TERMINATION_REQUESTED\<rparr>) alice_named" 1 "''bob''"
      "[]" "[]" "says ''bob''" "[]"]
  have 1: "setClientName 1 ''alice'' alice_named = Inr (False, alice_named)"
    using first taken by blast
  have 2: "\<exists>w'. attempts ''bob'' [1, 2, 3] alice_named = Inr ([True, False, False], w')"
    using third free alice_named_facts(3) by simp
  have 3: "loginLoop 1 []
       (at_session 1 (\<lambda>s. s\<lparr>state := READER_TERMINATION_REQUESTED\<rparr>) alice_named) =
     (Returned, [],
      at_session 1 (\<lambda>s. s\<lparr>state := READER_TERMINATION_REQUESTED\<rparr>) alice_named)"
    using fourth stopped by blast
  have "loginLoop 1 [says ''alice'', says ''bob''] alice_named = loginLoop 1 [says ''bob''] ?again"
    using first taken alice_named_facts(1,2) said(1) by blast
  moreover have "loginLoop 1 [says ''bob''] ?again =
      (Returned, [],
       at_session 1
         (\<lambda>s. s\<lparr>state := state s OR interference (says ''bob''), name := ''bob'',
                nameValid := True,
                written := written s @ [str, ''Welcome to the chat, '' @ ''bob'' @ ''!'' @ [CHR 0x0A]]\<rparr>)
         (?again\<lparr>namesToClients := insort_key fst (''bob'', 1) (namesToClients ?again)\<rparr>))"
    using second again said(2) by blast
  ultimately have 4: "\<exists>w'. loginLoop 1 [says ''alice'', says ''bob''] alice_named = (Returned, [], w') \<and>
         written (heap w' 1) =
           [str, ''Name '' @ [CHR 0x27] @ ''alice'' @ [CHR 0x27] @
                 '' is already taken, invent another one.'' @ [CHR 0x0A],
            str, ''Welcome to the chat, bob!'' @ [CHR 0x0A]] \<and>
         namesToClients w' = [(''alice'', 0), (''bob'', 1)]"
    by (simp add: at_session_def alice_named_facts alice_named_simps)
  from 1 2 3 4 show ?thesis
    by blast
qed

text \<open>
  The claim as stated fails: while the reader of session 1 is reading the name, another
  thread sets \<^verbatim>\<open>READER_TERMINATION_REQUESTED\<close>. The name is taken, the reader says so,
  and the loop ends: no second prompt is written and the next line is not read as a
  name.
\<close>

theorem login_not_reprompted:
  "loginLoop 1 [\<lparr>interference = READER_TERMINATION_REQUESTED, received = Line ''alice'',
                 stamp = ''12:00''\<rparr>, says ''bob''] alice_named =
     (Returned, [says ''bob''],
      at_session 1
        (\<lambda>s. s\<lparr>state := READER_TERMINATION_REQUESTED,
               written := [str, ''Name '' @ [CHR 0x27] @ ''alice'' @ [CHR 0x27] @
                                '' is already taken, invent another one.'' @ [CHR 0x0A]]\<rparr>)
        alice_named)"
proof -
  let ?i = "\<lparr>interference = READER_TERMINATION_REQUESTED, received = Line ''alice'',
             stamp = ''12:00''\<rparr>"
  let ?w = "at_session 1
      (\<lambda>s. s\<lparr>state := state s OR interference ?i,
             written := written s @
               [str, ''Name '' @ [CHR 0x27] @ ''alice'' @ [CHR 0x27] @
                     '' is already taken, invent another one.'' @ [CHR 0x0A]]\<rparr>) alice_named"
  have "loginLoop 1 [?i, says ''bob''] alice_named = loginLoop 1 [says ''bob''] ?w"
    by (rule loginLoop_taken) (simp_all add: alice_named_facts alice_named_simps)
  moreover have "state (heap ?w 1) \<noteq> ALL_RUNNING"
    by (simp add: at_session_def alice_named_facts alice_named_simps ALL_RUNNING_def
        READER_TERMINATION_REQUESTED_def)
  ultimately have "loginLoop 1 [?i, says ''bob''] alice_named = (Returned, [says ''bob''], ?w)"
    by (simp add: loginLoop_stopped)
  then show ?thesis
    by (simp add: at_session_def alice_named_facts alice_named_simps ALL_RUNNING_def)
qed

subsection \<open>Exceptions in the thread functions\<close>

lemma onReaderShutdown_effect:
  "state (heap (onReaderShutdown c w) c) AND READER_TERMINATED \<noteq> 0"
  "clientsToRemove (onReaderShutdown c w) =
     clientsToRemove w @ (if state (heap w c) AND WRITER_TERMINATED \<noteq> 0 then [c] else [])"
  "cout (onReaderShutdown c w) = cout w"
  by (simp_all add: onReaderShutdown_def onReaderShutdown_branch_def fetch_or_def
      removeClient_def at_session_def flag_set)

lemma onWriterShutdown_effect:
  assumes "onWriterShutdown c w = Inr w'"
  shows "state (heap w' c) AND WRITER_TERMINATED \<noteq> 0"
    and "clientsToRemove w' =
           clientsToRemove w @ (if state (heap w c) AND READER_TERMINATED \<noteq> 0 then [c] else [])"
    and "cout w' = cout w"
  using assms
  by (auto simp: onWriterShutdown_def onWriterShutdown_branch_def fetch_or_def
      removeClient_def try_session_def interruptReader_def flag_set flag_frame
      split: if_splits sum.splits)

lemma onWriterShutdown_succeeds:
  assumes "joinable (heap w c) \<or> state (heap w c) AND READER_TERMINATED \<noteq> 0"
  shows "\<exists>w'. onWriterShutdown c w = Inr w'"
  using assms
  by (auto simp: onWriterShutdown_def onWriterShutdown_branch_def fetch_or_def
      try_session_def interruptReader_def joinable_def flag_frame)

lemma chatLoop_eof: "chatLoop c [] w = (Raised (Exception ''End of file''), w)"
  by (subst chatLoop.simps) simp

lemma chatLoop_quit:
  "received i = Line ''/quit'' \<Longrightarrow>
   chatLoop c (i # rest) w =
     (Returned, at_session c (\<lambda>s. s\<lparr>state := state s OR interference i\<rparr>) w)"
  by (subst chatLoop.simps) (simp add: parseLine_def)

text \<open>
  Claim C7, as the code has it. An exception that leaves the loops of the reader, or the
  loop of the writer, is caught by the handler of the thread function, which prints one
  line with the session's name in quotes, or \<^verbatim>\<open>(null)\<close> when the session has no name.
  After that the thread runs the same shutdown function as after a normal end of its
  loop: its own flag is set, and the session is put on the reclamation queue exactly if
  the other thread's flag was set already. The shutdown function of the writer comes
  back whenever the reader's thread object still holds a thread or the reader's flag is
  set.
\<close>

theorem exception_then_handshake:
  "(readerLoops c ins w = (Raised (Exception what), w1) \<longrightarrow>
      readerThread c ins w =
        (Finished,
         onReaderShutdown c
           (w1\<lparr>cout := cout w1 @ [''Client '' @ formattedName (heap w1 c) @
                                  '' reader thread exeption: '' @ what @ [CHR 0x0A]]\<rparr>))) \<and>
   (readerLoops c ins w = (Returned, w1) \<longrightarrow>
      readerThread c ins w = (Finished, onReaderShutdown c w1)) \<and>
   (writerLoop (heap w c) = (Raised (Exception what), s1) \<and>
    onWriterShutdown c
      (w\<lparr>heap := (heap w)(c := s1),
         cout := cout w @ [''Client '' @ formattedName s1 @
                           '' writer thread exeption: '' @ what @ [CHR 0x0A]]\<rparr>) = Inr w2 \<longrightarrow>
      writerThread c w = (Finished, w2)) \<and>
   (writerLoop (heap w c) = (Returned, s1) \<and>
    onWriterShutdown c (w\<lparr>heap := (heap w)(c := s1)\<rparr>) = Inr w2 \<longrightarrow>
      writerThread c w = (Finished, w2)) \<and>
   formattedName s = (if nameValid s then [CHR 0x27] @ name s @ [CHR 0x27] else ''(null)'') \<and>
   state (heap (onReaderShutdown c w) c) AND READER_TERMINATED \<noteq> 0 \<and>
   clientsToRemove (onReaderShutdown c w) =
     clientsToRemove w @ (if state (heap w c) AND WRITER_TERMINATED \<noteq> 0 then [c] else []) \<and>
   (joinable (heap w c) \<or> state (heap w c) AND READER_TERMINATED \<noteq> 0 \<longrightarrow>
      (\<exists>w'. onWriterShutdown c w = Inr w')) \<and>
   (onWriterShutdown c w = Inr w' \<longrightarrow>
      state (heap w' c) AND WRITER_TERMINATED \<noteq> 0 \<and>
      clientsToRemove w' =
        clientsToRemove w @ (if state (heap w c) AND READER_TERMINATED \<noteq> 0 then [c] else []))"
  using onReaderShutdown_effect [of c w] onWriterShutdown_effect [of c w w']
    onWriterShutdown_succeeds [of w c]
  by (simp add: readerThread_def writerThread_def thread_end_def formattedName_def getName_def)

lemma bob_joins:
  "loginLoop 1 (says ''bob'' # rest) alice_named =
     (Returned, rest,
      at_session 1
        (\<lambda>s. s\<lparr>state := state s OR interference (says ''bob''), name := ''bob'',
               nameValid := True,
               written := written s @ [str, ''Welcome to the chat, '' @ ''bob'' @ ''!'' @ [CHR 0x0A]]\<rparr>)
        (alice_named\<lparr>namesToClients := insort_key fst (''bob'', 1) (namesToClients alice_named)\<rparr>))"
  by (rule loginLoop_welcome) (simp_all add: alice_named_facts says_def del: One_nat_def)

lemma alice_session:
  "state (heap alice_named 0) = ALL_RUNNING" "name (heap alice_named 0) = ''alice''"
  "nameValid (heap alice_named 0)" "messages (heap alice_named 0) = []"
  "joinable (heap alice_named 0)" "cout alice_named = []" "clientsToRemove alice_named = []"
  by (simp_all add: alice_named_eq two_clients_eq newChatServer_def start_def
      newClientSession_def joinable_def)

theorem exception_then_handshake_witness:
  "fst (readerThread 1 [says ''bob''] alice_named) = Finished \<and>
   cout (snd (readerThread 1 [says ''bob''] alice_named)) =
     [''Client '' @ [CHR 0x27] @ ''bob'' @ [CHR 0x27] @
      '' reader thread exeption: End of file'' @ [CHR 0x0A]] \<and>
   fst (readerThread 1 [says ''bob'', says ''/quit''] alice_named) = Finished \<and>
   cout (snd (readerThread 1 [says ''bob'', says ''/quit''] alice_named)) = [] \<and>
   fst (writerThread 0 broken_pipe) = Finished \<and>
   cout (snd (writerThread 0 broken_pipe)) =
     [''Client '' @ [CHR 0x27] @ ''alice'' @ [CHR 0x27] @
      '' writer thread exeption: Broken pipe'' @ [CHR 0x0A]] \<and>
   fst (writerThread 0
          (at_session 0 (\<lambda>s. s\<lparr>state := READER_TERMINATION_REQUESTED\<rparr>) alice_named)) = Finished \<and>
   cout (snd (writerThread 0
                (at_session 0 (\<lambda>s. s\<lparr>state := READER_TERMINATION_REQUESTED\<rparr>) alice_named))) = []"
proof -
  let ?joined = "at_session 1
        (\<lambda>s. s\<lparr>state := state s OR interference (says ''bob''), name := ''bob'',
               nameValid := True,
               written := written s @ [str, ''Welcome to the chat, '' @ ''bob'' @ ''!'' @ [CHR 0x0A]]\<rparr>)
        (alice_named\<lparr>namesToClients := insort_key fst (''bob'', 1) (namesToClients alice_named)\<rparr>)"
  let ?quit = "at_session 1 (\<lambda>s. s\<lparr>state := state s OR interference (says ''/quit'')\<rparr>) ?joined"
  let ?sent = "(sendMessage ''hi'' (heap alice_named 0))\<lparr>writeError := Some ''Broken pipe''\<rparr>"
  let ?asked = "at_session 0 (\<lambda>s. s\<lparr>state := READER_TERMINATION_REQUESTED\<rparr>) alice_named"
  let ?logged = "broken_pipe\<lparr>heap := (heap broken_pipe)(0 := ?sent\<lparr>messages := []\<rparr>),
              cout := cout broken_pipe @ [''Client '' @ formattedName (?sent\<lparr>messages := []\<rparr>) @
                                '' writer thread exeption: '' @ ''Broken pipe'' @ [CHR 0x0A]]\<rparr>"
  let ?left = "?asked\<lparr>heap := (heap ?asked)(0 := heap ?asked 0)\<rparr>"
  have r1: "readerLoops 1 [says ''bob''] alice_named =
      (Raised (Exception ''End of file''), ?joined)"
    by (simp add: readerLoops_def bob_joins chatLoop_eof del: One_nat_def)
  have "received (says ''/quit'') = Line ''/quit''"
    by (simp add: says_def)
  note quit = chatLoop_quit [OF this]
  have r2: "readerLoops 1 [says ''bob'', says ''/quit''] alice_named = (Returned, ?quit)"
    by (simp add: readerLoops_def bob_joins quit del: One_nat_def)
  have "writerLoop ?sent = (Raised (Exception ''Broken pipe''), ?sent\<lparr>messages := []\<rparr>)"
    by (rule writerLoop_fail) (simp_all add: sendMessage_def alice_session)
  then have w1: "writerLoop (heap broken_pipe 0) =
      (Raised (Exception ''Broken pipe''), ?sent\<lparr>messages := []\<rparr>)"
    by (simp add: broken_pipe_def at_session_def)
  have "state (heap ?asked 0) \<noteq> ALL_RUNNING"
    by (simp add: at_session_def ALL_RUNNING_def READER_TERMINATION_REQUESTED_def)
  then have w2: "writerLoop (heap ?asked 0) = (Returned, heap ?asked 0)"
    by (rule writerLoop_stopped)
  have "joinable (heap ?logged 0)" "joinable (heap ?left 0)"
    using alice_session(5) by (simp_all add: at_session_def sendMessage_def joinable_def)
  then obtain l1 l2 where
    l1: "onWriterShutdown 0 ?logged = Inr l1" and l2: "onWriterShutdown 0 ?left = Inr l2"
    using onWriterShutdown_succeeds [of ?logged 0] onWriterShutdown_succeeds [of ?left 0]
    by blast
  note a = exception_then_handshake [of 1 "[says ''bob'']" alice_named "''End of file''" ?joined]
  note b = exception_then_handshake [of 1 "[says ''bob'', says ''/quit'']" alice_named _ ?quit]
  note c = exception_then_handshake [of 0 _ broken_pipe "''Broken pipe''" _
      "?sent\<lparr>messages := []\<rparr>" l1]
  note d = exception_then_handshake [of 0 _ ?asked _ _ "heap ?asked 0" l2]
  have "readerThread 1 [says ''bob''] alice_named =
        (Finished,
         onReaderShutdown 1
           (?joined\<lparr>cout := cout ?joined @ [''Client '' @ formattedName (heap ?joined 1) @
                                  '' reader thread exeption: '' @ ''End of file'' @ [CHR 0x0A]]\<rparr>))"
    using a r1 by blast
  then have 1: "fst (readerThread 1 [says ''bob''] alice_named) = Finished \<and>
   cout (snd (readerThread 1 [says ''bob''] alice_named)) =
     [''Client '' @ [CHR 0x27] @ ''bob'' @ [CHR 0x27] @
      '' reader thread exeption: End of file'' @ [CHR 0x0A]]"
    by (simp add: onReaderShutdown_effect at_session_def alice_session formattedName_def
        getName_def)
  have "readerThread 1 [says ''bob'', says ''/quit''] alice_named =
      (Finished, onReaderShutdown 1 ?quit)"
    using b r2 by blast
  then have 2: "fst (readerThread 1 [says ''bob'', says ''/quit''] alice_named) = Finished \<and>
   cout (snd (readerThread 1 [says ''bob'', says ''/quit''] alice_named)) = []"
    by (simp add: onReaderShutdown_effect at_session_def alice_session)
  have "writerThread 0 broken_pipe = (Finished, l1)"
    using c w1 l1 by blast
  then have 3: "fst (writerThread 0 broken_pipe) = Finished \<and>
   cout (snd (writerThread 0 broken_pipe)) =
     [''Client '' @ [CHR 0x27] @ ''alice'' @ [CHR 0x27] @
      '' writer thread exeption: Broken pipe'' @ [CHR 0x0A]]"
    using onWriterShutdown_effect(3) [OF l1]
    by (simp add: broken_pipe_def at_session_def alice_session formattedName_def getName_def
        sendMessage_def)
  have "writerThread 0 ?asked = (Finished, l2)"
    using d w2 l2 by blast
  then have 4: "fst (writerThread 0 ?asked) = Finished \<and> cout (snd (writerThread 0 ?asked)) = []"
    using onWriterShutdown_effect(3) [OF l2]
    by (simp add: at_session_def alice_session)
  from 1 2 3 4 show ?thesis
    by blast
qed

lemma loginLoop_eof:
  "state (heap w c) = ALL_RUNNING \<Longrightarrow> writeError (heap w c) = None \<Longrightarrow>
   loginLoop c [] w =
     (Raised (Exception ''End of file''), [],
      at_session c (\<lambda>s. s\<lparr>written := written s @ [str]\<rparr>) w)"
  by (subst loginLoop.simps) (simp add: socket_write_def asio_write_def at_session_def)

text \<open>
  The claim as stated fails on the text of the log line: for a session that has no name
  the handler prints \<^verbatim>\<open>(null)\<close>.
\<close>

theorem unnamed_logged_as_null:
  "cout (snd (readerThread 1 [] alice_named)) =
     [''Client (null) reader thread exeption: End of file'' @ [CHR 0x0A]] \<and>
   formattedName (heap alice_named 1) \<noteq> ''(unknown)''"
proof -
  have "cout alice_named = []"
    by (simp add: alice_named_eq two_clients_eq newChatServer_def)
  then show ?thesis
    by (simp add: readerThread_def readerLoops_def loginLoop_eof alice_named_facts
        alice_named_simps onReaderShutdown_effect at_session_def formattedName_def getName_def)
qed

subsection \<open>The accept loop under shutdown\<close>

lemma terminate_isl: "isl (terminate s) = (\<not> joinable s)"
  by (cases "joinable s")
     (simp_all add: terminate_def interruptReader_joinable interruptReader_no_thread)

lemma terminate_projr:
  "joinable s \<Longrightarrow>
   projr (terminate s) =
     s\<lparr>state := state s OR READER_TERMINATION_REQUESTED, readerSignals := Suc (readerSignals s)\<rparr>"
  by (simp add: terminate_def interruptReader_joinable)

lemma shutdown_succeeds:
  "\<forall>c\<in>clients w. joinable (heap w c) \<Longrightarrow> \<exists>w'. shutdown w = Inr w'"
  by (simp add: shutdown_def terminate_isl)

lemma shutdown_error: "shutdown w = Inl e \<Longrightarrow> e = BadThreadHandle"
  by (auto simp: shutdown_def split: if_splits)

lemma shutdown_result:
  assumes "shutdown w = Inr w'"
  shows "isTerminating w'" and "clients w' = clients w" and "nextId w' = nextId w"
    and "started (heap w' c) = started (heap w c)"
    and "joinable (heap w' c) = joinable (heap w c)"
proof -
  from assms have ok: "\<forall>c\<in>clients w. joinable (heap w c)"
    and w': "w' = w\<lparr>heap := (\<lambda>c. if c \<in> clients w then projr (terminate (heap w c))
                                else heap w c),
                 isTerminating := True,
                 acceptorSignals := Suc (acceptorSignals w)\<rparr>"
    by (auto simp: shutdown_def terminate_isl split: if_splits)
  from w' show "isTerminating w'" and "clients w' = clients w" and "nextId w' = nextId w"
    by simp_all
  from w' ok show "started (heap w' c) = started (heap w c)"
    and "joinable (heap w' c) = joinable (heap w c)"
    by (auto simp: terminate_projr joinable_def)
qed

lemma run_terminating:
  assumes "isTerminating w"
  shows "(fst (run evs w) = Returned \<or> fst (run evs w) = Raised BadThreadHandle) \<and>
         ((\<forall>c'\<in>clients w. joinable (heap w c')) \<longrightarrow> fst (run evs w) = Returned) \<and>
         clients (snd (run evs w)) = clients w \<and>
         started (heap (snd (run evs w)) c) = started (heap w c)"
proof (cases evs)
  case Nil
  with assms show ?thesis by simp
next
  case (Cons ev evs')
  show ?thesis
  proof (cases "shutdownBefore ev")
    case False
    with assms Cons show ?thesis by simp
  next
    case True
    show ?thesis
    proof (cases "shutdown w")
      case (Inl e)
      then have "\<not> (\<forall>c'\<in>clients w. joinable (heap w c'))"
        using shutdown_succeeds [of w] by auto
      with Inl True Cons shutdown_error [OF Inl] show ?thesis by simp
    next
      case (Inr w0)
      with True Cons shutdown_result [OF Inr] show ?thesis by simp
    qed
  qed
qed

lemma run_discards:
  assumes "\<not> isTerminating w" and "\<not> shutdownBefore ev" and "shutdownDuring ev"
    and "accepted ev = Connected"
  shows "(fst (run (ev # evs) w) = Returned \<or> fst (run (ev # evs) w) = Raised BadThreadHandle) \<and>
         ((\<forall>c'\<in>clients w. c' \<noteq> nextId w \<and> joinable (heap w c')) \<longrightarrow>
            fst (run (ev # evs) w) = Returned) \<and>
         clients (snd (run (ev # evs) w)) = clients w \<and>
         \<not> started (heap (snd (run (ev # evs) w)) (nextId w)) \<and>
         (c \<noteq> nextId w \<longrightarrow> started (heap (snd (run (ev # evs) w)) c) = started (heap w c))"
proof -
  let ?w1 = "snd (make_shared w)"
  have w1: "clients ?w1 = clients w" "\<not> started (heap ?w1 (nextId w))"
    "\<And>c. c \<noteq> nextId w \<Longrightarrow> heap ?w1 c = heap w c"
    by (simp_all add: make_shared_def newClientSession_def)
  show ?thesis
  proof (cases "shutdown ?w1")
    case (Inl e)
    have "\<not> (\<forall>c'\<in>clients w. c' \<noteq> nextId w \<and> joinable (heap w c'))"
    proof
      assume "\<forall>c'\<in>clients w. c' \<noteq> nextId w \<and> joinable (heap w c')"
      then have "\<forall>c'\<in>clients ?w1. joinable (heap ?w1 c')"
        using w1 by auto
      from shutdown_succeeds [OF this] Inl show False by simp
    qed
    moreover have "run (ev # evs) w = (Raised BadThreadHandle, ?w1)"
      using assms Inl shutdown_error [OF Inl] by (simp add: make_shared_def)
    ultimately show ?thesis
      using w1 by simp
  next
    case (Inr w2)
    note r = shutdown_result [OF Inr]
    have "run (ev # evs) w = run evs w2"
      using assms Inr r(1) by (simp add: make_shared_def)
    moreover have "\<forall>c'\<in>clients w2. joinable (heap w2 c')"
      if "\<forall>c'\<in>clients w. c' \<noteq> nextId w \<and> joinable (heap w c')"
      using that r(2,5) w1 by auto
    ultimately show ?thesis
      using run_terminating [OF r(1), of evs] run_terminating [OF r(1), of evs "nextId w"]
        run_terminating [OF r(1), of evs c] r(2,4) w1
      by auto
  qed
qed

lemma run_shutdown_first:
  assumes "shutdownBefore ev"
  shows "(fst (run (ev # evs) w) = Returned \<or> fst (run (ev # evs) w) = Raised BadThreadHandle) \<and>
         ((\<forall>c'\<in>clients w. joinable (heap w c')) \<longrightarrow> fst (run (ev # evs) w) = Returned) \<and>
         clients (snd (run (ev # evs) w)) = clients w \<and>
         started (heap (snd (run (ev # evs) w)) c) = started (heap w c)"
proof (cases "shutdown w")
  case (Inl e)
  then have "\<not> (\<forall>c'\<in>clients w. joinable (heap w c'))"
    using shutdown_succeeds [of w] by auto
  with Inl assms shutdown_error [OF Inl] show ?thesis by simp
next
  case (Inr w0)
  with assms shutdown_result [OF Inr] show ?thesis by simp
qed

text \<open>
  Claim C10. Once \<^verbatim>\<open>_isTerminating\<close> is set, \<^verbatim>\<open>run\<close> inserts no session into the
  live-set and starts none, whatever connections are still to come, and it returns
  (unless a \<^verbatim>\<open>shutdown\<close> in another thread brings the process down, which it cannot do
  while every thread object of the live-set holds a thread). In particular, when
  \<^verbatim>\<open>shutdown\<close> runs while \<^verbatim>\<open>accept\<close> is blocked and the connection is then accepted, the
  guarded block is skipped: the live-set is as before and the new session is never
  started.
\<close>

theorem run_after_terminating:
  "(isTerminating w \<longrightarrow>
      (fst (run evs w) = Returned \<or> fst (run evs w) = Raised BadThreadHandle) \<and>
      ((\<forall>c'\<in>clients w. joinable (heap w c')) \<longrightarrow> fst (run evs w) = Returned) \<and>
      clients (snd (run evs w)) = clients w \<and>
      started (heap (snd (run evs w)) c) = started (heap w c)) \<and>
   (shutdownBefore ev \<longrightarrow>
      (fst (run (ev # evs) w) = Returned \<or> fst (run (ev # evs) w) = Raised BadThreadHandle) \<and>
      ((\<forall>c'\<in>clients w. joinable (heap w c')) \<longrightarrow> fst (run (ev # evs) w) = Returned) \<and>
      clients (snd (run (ev # evs) w)) = clients w \<and>
      started (heap (snd (run (ev # evs) w)) c) = started (heap w c)) \<and>
   (\<not> isTerminating w \<and> \<not> shutdownBefore ev \<and> shutdownDuring ev \<and> accepted ev = Connected \<longrightarrow>
      (fst (run (ev # evs) w) = Returned \<or> fst (run (ev # evs) w) = Raised BadThreadHandle) \<and>
      ((\<forall>c'\<in>clients w. c' \<noteq> nextId w \<and> joinable (heap w c')) \<longrightarrow>
         fst (run (ev # evs) w) = Returned) \<and>
      clients (snd (run (ev # evs) w)) = clients w \<and>
      \<not> started (heap (snd (run (ev # evs) w)) (nextId w)) \<and>
      (c \<noteq> nextId w \<longrightarrow> started (heap (snd (run (ev # evs) w)) c) = started (heap w c)))"
  using run_terminating [of w evs c] run_shutdown_first [of ev evs w c]
    run_discards [of w ev evs c]
  by blast

theorem run_after_terminating_witness:
  "fst (run [late_connection, connection] two_clients) = Returned \<and>
   clients (snd (run [late_connection, connection] two_clients)) = {0, 1} \<and>
   \<not> started (heap (snd (run [late_connection, connection] two_clients)) 3) \<and>
   fst (run [\<lparr>shutdownBefore = True, shutdownDuring = False, accepted = Connected\<rparr>]
          two_clients) = Returned \<and>
   clients (snd (run [\<lparr>shutdownBefore = True, shutdownDuring = False, accepted = Connected\<rparr>]
                   two_clients)) = {0, 1} \<and>
   fst (run [connection] (two_clients\<lparr>isTerminating := True\<rparr>)) = Returned \<and>
   clients (snd (run [connection] (two_clients\<lparr>isTerminating := True\<rparr>))) = {0, 1}"
proof -
  have facts: "\<not> isTerminating two_clients" "clients two_clients = {0, 1}"
    "nextId two_clients = 3"
    "\<forall>c'\<in>clients two_clients. c' \<noteq> nextId two_clients \<and> joinable (heap two_clients c')"
    by (simp_all add: two_clients_eq newChatServer_def joinable_def start_def
        newClientSession_def)
  have late: "\<not> shutdownBefore late_connection" "shutdownDuring late_connection"
    "accepted late_connection = Connected"
    by (simp_all add: late_connection_def)
  note a = run_after_terminating [of two_clients "[connection]" 0 late_connection]
  note b = run_after_terminating [of two_clients "[]" 0
      "\<lparr>shutdownBefore = True, shutdownDuring = False, accepted = Connected\<rparr>"]
  note c = run_after_terminating [of "two_clients\<lparr>isTerminating := True\<rparr>" "[connection]" 0
      connection]
  from a b c facts late show ?thesis
    by simp
qed

subsection \<open>The exit status of main\<close>


lemma lexical_cast_int_error:
  "lexical_cast_int src = Inl e \<Longrightarrow>
   e = Exception ''bad lexical cast: source type value could not be interpreted as target''"
  by (auto simp: lexical_cast_int_def Let_def split: if_splits)











end
